theory Spec2Isabelle
  imports Complex_Main "HOL-Library.Multiset"
begin

section \<open>Refinery utilization dashboard: the script as functions\<close>

text \<open>
  The script \<^verbatim>\<open>EIA_US_Refinery_Utilization.py\<close> is one straight run: a loop over six
  regions that fetches, cleans and analyses a weekly series and stores it in the dict
  \<^verbatim>\<open>dfs\<close>, a guard that stops the run when the dict is empty, and the drawing of a
  dashboard that is saved to \<^verbatim>\<open>refinery_dashboard.png\<close>.

  Conventions of the embedding.
  \<^item> A float that may be infinite is a \<open>number option\<close>, a float that cannot is a
    \<open>real option\<close>; \<open>None\<close> is NaN (a missing value). Arithmetic is exact: rounding and
    overflow are outside the model.
  \<^item> A timestamp is an \<open>int option\<close>: nanoseconds since 1970-01-01, \<open>None\<close> is NaT.
  \<^item> A data frame is the list of its rows, in row order. A dict is the list of its items,
    in insertion order.
  \<^item> An exception is a value: the body of the \<^verbatim>\<open>try\<close> returns a signal next to the state.
  \<^item> What the script leaves to pandas and the source does not determine is a parameter
    (the record \<open>pandas\<close> below): how a cell is parsed, in which order rows of equal date
    come out of the default (quicksort) ordering, and what \<^verbatim>\<open>pd.DataFrame\<close> builds from a
    payload that is not an array of objects.
\<close>

subsection \<open>JSON values and the Python operators applied to them\<close>

datatype json =
    JNull
  | JBool bool
  | JNum real
  | JStr string
  | JArr "json list"
  | JObj "(string \<times> json) list"

datatype error =
    RequestError
  | TypeError
  | KeyError
  | ValueError
  | IndexError
  | LibraryError

definition ebind :: "error + 'a \<Rightarrow> ('a \<Rightarrow> error + 'b) \<Rightarrow> error + 'b" where
  "ebind m f = (case m of Inl e \<Rightarrow> Inl e | Inr x \<Rightarrow> f x)"

fun mapM :: "('a \<Rightarrow> error + 'b) \<Rightarrow> 'a list \<Rightarrow> error + 'b list" where
  "mapM f [] = Inr []"
| "mapM f (x # xs) = ebind (f x) (\<lambda>y. ebind (mapM f xs) (\<lambda>ys. Inr (y # ys)))"

text \<open>\<^verbatim>\<open>p in s\<close> on two strings: \<open>p\<close> occurs in \<open>s\<close> as a contiguous piece.\<close>

fun substring :: "string \<Rightarrow> string \<Rightarrow> bool" where
  "substring p [] = (p = [])"
| "substring p (c # cs) = (take (length p) (c # cs) = p \<or> substring p cs)"

text \<open>
  \<^verbatim>\<open>key in obj\<close> for a string key: membership among the keys of a dict, among the
  elements of a list, as a piece of a string; \<^verbatim>\<open>TypeError\<close> on \<^verbatim>\<open>None\<close>, a bool or a number.
\<close>

fun py_in :: "string \<Rightarrow> json \<Rightarrow> error + bool" where
  "py_in k (JObj kvs) = Inr (k \<in> set (map fst kvs))"
| "py_in k (JArr xs) = Inr (JStr k \<in> set xs)"
| "py_in k (JStr s) = Inr (substring k s)"
| "py_in k JNull = Inl TypeError"
| "py_in k (JBool b) = Inl TypeError"
| "py_in k (JNum x) = Inl TypeError"

text \<open>
  \<^verbatim>\<open>obj[key]\<close> for a string key: the value of a dict (\<^verbatim>\<open>KeyError\<close> when the key is
  absent), \<^verbatim>\<open>TypeError\<close> on everything else.
\<close>

fun py_getitem :: "json \<Rightarrow> string \<Rightarrow> error + json" where
  "py_getitem (JObj kvs) k = (case map_of kvs k of None \<Rightarrow> Inl KeyError | Some v \<Rightarrow> Inr v)"
| "py_getitem (JArr xs) k = Inl TypeError"
| "py_getitem (JStr s) k = Inl TypeError"
| "py_getitem JNull k = Inl TypeError"
| "py_getitem (JBool b) k = Inl TypeError"
| "py_getitem (JNum x) k = Inl TypeError"

text \<open>Truth value of a JSON value, as \<^verbatim>\<open>if not data\<close> reads it.\<close>

fun truthy :: "json \<Rightarrow> bool" where
  "truthy JNull = False"
| "truthy (JBool b) = b"
| "truthy (JNum x) = (x \<noteq> 0)"
| "truthy (JStr s) = (s \<noteq> [])"
| "truthy (JArr xs) = (xs \<noteq> [])"
| "truthy (JObj kvs) = (kvs \<noteq> [])"

subsection \<open>The pandas routines\<close>

type_synonym timestamp = int

text \<open>A float that is not NaN: \<^verbatim>\<open>pd.to_numeric\<close> reads \<^verbatim>\<open>inf\<close> and \<^verbatim>\<open>-inf\<close> as numbers.\<close>

datatype number = Finite real | PosInf | NegInf

text \<open>
  The part of pandas the source does not fix.
  \<^item> \<open>parse_datetime col c\<close>: what \<^verbatim>\<open>pd.to_datetime\<close> makes of cell \<open>c\<close> of column \<open>col\<close>
    (a timestamp, NaT, or an exception that ends the conversion of the column).
  \<^item> \<open>parse_numeric col c\<close>: what \<^verbatim>\<open>pd.to_numeric(..., errors='coerce')\<close> makes of a cell.
  \<^item> \<open>argsort ks\<close>: the positions of \<open>ks\<close> in the order the default sorting kind
    puts them; its contract is \<open>argsort_ok\<close>.
  \<^item> \<open>frame_other d\<close>: the \<^verbatim>\<open>period\<close> and \<^verbatim>\<open>value\<close> columns of \<^verbatim>\<open>pd.DataFrame(d)\<close> for a
    payload \<open>d\<close> that is not an array of objects.
\<close>

record pandas =
  parse_datetime :: "json list \<Rightarrow> json \<Rightarrow> error + timestamp option"
  parse_numeric :: "json list \<Rightarrow> json \<Rightarrow> error + number option"
  argsort :: "timestamp list \<Rightarrow> nat list"
  frame_other :: "json \<Rightarrow> error + (json \<times> json) list"

definition argsort_ok :: "(timestamp list \<Rightarrow> nat list) \<Rightarrow> bool" where
  "argsort_ok f \<longleftrightarrow>
     (\<forall>ks. mset (f ks) = mset [0..<length ks] \<and> sorted (map (\<lambda>i. ks ! i) (f ks)))"

fun is_object :: "json \<Rightarrow> bool" where
  "is_object (JObj kvs) = True"
| "is_object j = False"

fun keys :: "json \<Rightarrow> string list" where
  "keys (JObj kvs) = map fst kvs"
| "keys j = []"

text \<open>The cell of a record under a column; a record without the key leaves it missing.\<close>

fun cell :: "string \<Rightarrow> json \<Rightarrow> json" where
  "cell k (JObj kvs) = (case map_of kvs k of None \<Rightarrow> JNull | Some v \<Rightarrow> v)"
| "cell k j = JNull"

text \<open>
  \<^verbatim>\<open>pd.DataFrame(data)[['period', 'value']]\<close>: for an array of objects the columns are
  the keys that occur in some record, and selecting a column that is not among them
  raises \<^verbatim>\<open>KeyError\<close>.
\<close>

definition DataFrame :: "pandas \<Rightarrow> json \<Rightarrow> error + (json \<times> json) list" where
  "DataFrame lib data =
     (case data of
        JArr recs \<Rightarrow>
          if list_all is_object recs then
            (let columns = concat (map keys recs) in
             if ''period'' \<in> set columns \<and> ''value'' \<in> set columns
             then Inr (map (\<lambda>r. (cell ''period'' r, cell ''value'' r)) recs)
             else Inl KeyError)
          else frame_other lib data
      | _ \<Rightarrow> frame_other lib data)"

definition to_datetime :: "pandas \<Rightarrow> json list \<Rightarrow> error + timestamp option list" where
  "to_datetime lib col = mapM (parse_datetime lib col) col"

definition to_numeric :: "pandas \<Rightarrow> json list \<Rightarrow> error + number option list" where
  "to_numeric lib col = mapM (parse_numeric lib col) col"

type_synonym frame2 = "(timestamp option \<times> number option) list"

text \<open>
  \<^verbatim>\<open>df.sort_values('Date')\<close>: the rows that have a date in the order \<open>argsort\<close> gives
  their dates, then the rows without a date in their old order.
\<close>

definition sort_values :: "pandas \<Rightarrow> frame2 \<Rightarrow> frame2" where
  "sort_values lib df =
     (let dated = filter (\<lambda>r. fst r \<noteq> None) df;
          undated = filter (\<lambda>r. fst r = None) df
      in map (\<lambda>i. dated ! i) (argsort lib (map (\<lambda>r. the (fst r)) dated)) @ undated)"

definition dropna :: "frame2 \<Rightarrow> frame2" where
  "dropna df = filter (\<lambda>r. snd r \<noteq> None) df"

text \<open>Lines 56 to 60: from the payload to the cleaned two-column frame.\<close>

definition normalize_series :: "pandas \<Rightarrow> json \<Rightarrow> error + frame2" where
  "normalize_series lib data =
     ebind (DataFrame lib data) (\<lambda>cells.
     ebind (to_datetime lib (map fst cells)) (\<lambda>dates.
     ebind (to_numeric lib (map snd cells)) (\<lambda>rates.
       Inr (dropna (sort_values lib (zip dates rates))))))"

subsection \<open>Rolling windows\<close>

text \<open>The values that are present in a column.\<close>

definition present :: "real option list \<Rightarrow> real list" where
  "present col = map the (filter (\<lambda>v. v \<noteq> None) col)"

text \<open>The trailing window of width \<open>w\<close> that ends at position \<open>i\<close>.\<close>

definition window_at :: "nat \<Rightarrow> 'a list \<Rightarrow> nat \<Rightarrow> 'a list" where
  "window_at w col i = drop (Suc i - w) (take (Suc i) col)"

definition mean :: "real list \<Rightarrow> real" where
  "mean xs = sum_list xs / real (length xs)"

text \<open>Standard deviation with one degree of freedom removed (\<^verbatim>\<open>ddof=1\<close>).\<close>

definition stdev :: "real list \<Rightarrow> real" where
  "stdev xs = sqrt (sum_list (map (\<lambda>x. (x - mean xs)\<^sup>2) xs) / (real (length xs) - 1))"

text \<open>
  \<^verbatim>\<open>col.rolling(window=w)\<close> first replaces every infinite value of the column by NaN and
  then asks for \<open>w\<close> observations (\<^verbatim>\<open>min_periods\<close> is the width): a window with fewer
  values that are neither NaN nor infinite gives NaN.
\<close>

fun observation :: "number option \<Rightarrow> real option" where
  "observation (Some (Finite x)) = Some x"
| "observation v = None"

definition rolling :: "nat \<Rightarrow> (real list \<Rightarrow> real) \<Rightarrow> number option list \<Rightarrow> real option list" where
  "rolling w agg col =
     map (\<lambda>i. let obs = present (map observation (window_at w col i))
              in if length obs < w then None else Some (agg obs))
         [0..<length col]"

record row =
  Date :: "timestamp option"
  Utilization_Rate :: "number option"
  MA_4W :: "real option"
  Volatility :: "real option"

type_synonym frame = "row list"

text \<open>Lines 67 and 68: the two rolling columns are added to the frame.\<close>

definition analysis :: "frame2 \<Rightarrow> frame" where
  "analysis df =
     (let rates = map snd df;
          ma = rolling 4 mean rates;
          vol = rolling 4 stdev rates
      in map (\<lambda>(r, m, v). \<lparr>Date = fst r, Utilization_Rate = snd r, MA_4W = m, Volatility = v\<rparr>)
             (zip df (zip ma vol)))"

subsection \<open>The fetch loop\<close>

datatype event =
    StartingFetch
  | Fetching string string
  | ApiCallFailed string json
  | NoDataReturned string
  | EmptyAfterCleaning string
  | Processed string nat
  | ErrorProcessing string error
  | NoDataProcessed
  | GeneratingDashboard
  | AddedTrendPlot string
  | AddedComparisonPlot
  | AddedBarChart
  | DashboardSaved

datatype level = INFO | WARNING | ERROR

fun level_of :: "event \<Rightarrow> level" where
  "level_of (ApiCallFailed n r) = ERROR"
| "level_of (ErrorProcessing n e) = ERROR"
| "level_of NoDataProcessed = ERROR"
| "level_of (NoDataReturned n) = WARNING"
| "level_of (EmptyAfterCleaning n) = WARNING"
| "level_of ev = INFO"

text \<open>The variables of the script that outlive one region: the dict \<^verbatim>\<open>dfs\<close> and the log.\<close>

record state =
  dfs :: "(string \<times> frame) list"
  log :: "event list"

definition logger :: "event \<Rightarrow> state \<Rightarrow> state" where
  "logger ev st = st\<lparr>log := log st @ [ev]\<rparr>"

text \<open>\<^verbatim>\<open>d[k] = v\<close>: a known key keeps its place, a new key goes to the end.\<close>

fun dict_set :: "('k \<times> 'v) list \<Rightarrow> 'k \<Rightarrow> 'v \<Rightarrow> ('k \<times> 'v) list" where
  "dict_set [] k v = [(k, v)]"
| "dict_set (p # ps) k v = (if fst p = k then (k, v) # ps else p # dict_set ps k v)"

definition series_ids :: "(string \<times> string) list" where
  "series_ids =
     [(''U.S. Total'', ''WPULEUS3''),
      (''PADD 1'', ''W_NA_YUP_R10_PER''),
      (''PADD 2'', ''W_NA_YUP_R20_PER''),
      (''PADD 3'', ''W_NA_YUP_R30_PER''),
      (''PADD 4'', ''W_NA_YUP_R40_PER''),
      (''PADD 5'', ''W_NA_YUP_R50_PER'')]"

definition base_url :: string where
  "base_url = ''https://api.eia.gov/v2/petroleum/pnp/wiup/data/''"

text \<open>\<^verbatim>\<open>os.getenv\<close> gives \<^verbatim>\<open>None\<close> for an unset variable; an f-string prints it as \<^verbatim>\<open>None\<close>.\<close>

definition str_of :: "string option \<Rightarrow> string" where
  "str_of k = (case k of None \<Rightarrow> ''None'' | Some s \<Rightarrow> s)"

definition url :: "string option \<Rightarrow> string \<Rightarrow> string" where
  "url api_key series_id =
     base_url @ ''?api_key='' @ str_of api_key
       @ ''&frequency=weekly&data[0]=value&facets[series][]='' @ series_id
       @ ''&sort[0][column]=period&sort[0][direction]=desc&offset=0&length=5000''"

text \<open>
  Line 47: \<^verbatim>\<open>'response' not in response or 'data' not in response['response']\<close>, with the
  short cut of \<^verbatim>\<open>or\<close>; each operator may raise.
\<close>

definition fields_missing :: "json \<Rightarrow> error + bool" where
  "fields_missing response =
     ebind (py_in ''response'' response) (\<lambda>has_response.
       if \<not> has_response then Inr True
       else ebind (py_getitem response ''response'') (\<lambda>r.
            ebind (py_in ''data'' r) (\<lambda>has_data. Inr (\<not> has_data))))"

datatype signal = Normal | Continue | Raise error

text \<open>
  Lines 46 to 70, the body of the \<^verbatim>\<open>try\<close> for one region. \<open>get\<close> is the data source:
  what \<^verbatim>\<open>requests.get(url).json()\<close> returns or raises for a URL.
\<close>

definition fetch_region ::
  "pandas \<Rightarrow> (string \<Rightarrow> error + json) \<Rightarrow> string option \<Rightarrow> string \<Rightarrow> string \<Rightarrow> state
     \<Rightarrow> state \<times> signal" where
  "fetch_region lib get api_key name series_id st =
     (case get (url api_key series_id) of
        Inl e \<Rightarrow> (st, Raise e)
      | Inr response \<Rightarrow>
          (case fields_missing response of
             Inl e \<Rightarrow> (st, Raise e)
           | Inr True \<Rightarrow> (logger (ApiCallFailed name response) st, Raise ValueError)
           | Inr False \<Rightarrow>
               (case ebind (py_getitem response ''response'') (\<lambda>r. py_getitem r ''data'') of
                  Inl e \<Rightarrow> (st, Raise e)
                | Inr data \<Rightarrow>
                    if \<not> truthy data then (logger (NoDataReturned name) st, Continue)
                    else
                      (case normalize_series lib data of
                         Inl e \<Rightarrow> (st, Raise e)
                       | Inr df \<Rightarrow>
                           if df = [] then (logger (EmptyAfterCleaning name) st, Continue)
                           else
                             (let df' = analysis df;
                                  st' = st\<lparr>dfs := dict_set (dfs st) name df'\<rparr>
                              in (logger (Processed name (length df')) st', Normal))))))"

text \<open>Lines 43 to 73, one turn of the loop: the \<^verbatim>\<open>except\<close> clause logs and goes on.\<close>

definition process_region ::
  "pandas \<Rightarrow> (string \<Rightarrow> error + json) \<Rightarrow> string option \<Rightarrow> state \<Rightarrow> string \<times> string \<Rightarrow> state" where
  "process_region lib get api_key st region =
     (let name = fst region; series_id = snd region in
      case fetch_region lib get api_key name series_id (logger (Fetching name series_id) st) of
        (st', Raise e) \<Rightarrow> logger (ErrorProcessing name e) st'
      | (st', _) \<Rightarrow> st')"

definition fetch_all ::
  "pandas \<Rightarrow> (string \<Rightarrow> error + json) \<Rightarrow> string option \<Rightarrow> (string \<times> string) list \<Rightarrow> state
     \<Rightarrow> state" where
  "fetch_all lib get api_key regions st = foldl (process_region lib get api_key) st regions"

subsection \<open>The dashboard\<close>

record trend =
  title :: string
  trend_x :: "timestamp option list"
  utilization :: "number option list"
  moving_average :: "real option list"
  band_low :: "number option list"
  band_high :: "number option list"

record line =
  label :: string
  color :: string
  linewidth :: real
  line_x :: "timestamp option list"
  line_y :: "number option list"

record bar =
  bar_label :: string
  height :: "real option"
  yerr :: "real option"

record dashboard =
  trends :: "trend list"
  comparison :: "line list"
  legend :: "string list"
  bars :: "bar list"

text \<open>
  A rate less or plus a volatility: NaN when either is NaN, an infinite rate stays as it
  is (the volatility is never infinite).
\<close>

fun shift :: "number \<Rightarrow> real \<Rightarrow> number" where
  "shift (Finite x) y = Finite (x + y)"
| "shift PosInf y = PosInf"
| "shift NegInf y = NegInf"

definition fsub :: "number option \<Rightarrow> real option \<Rightarrow> number option" where
  "fsub a b = (case (a, b) of (Some x, Some y) \<Rightarrow> Some (shift x (- y)) | _ \<Rightarrow> None)"

definition fadd :: "number option \<Rightarrow> real option \<Rightarrow> number option" where
  "fadd a b = (case (a, b) of (Some x, Some y) \<Rightarrow> Some (shift x y) | _ \<Rightarrow> None)"

definition py_enumerate :: "'a list \<Rightarrow> (nat \<times> 'a) list" where
  "py_enumerate xs = zip [0..<length xs] xs"

text \<open>Lines 86 to 101: one panel for each of the first six entries.\<close>

definition trend_panel :: "string \<times> frame \<Rightarrow> trend" where
  "trend_panel entry =
     (let df = snd entry in
      \<lparr>title = fst entry,
       trend_x = map Date df,
       utilization = map Utilization_Rate df,
       moving_average = map MA_4W df,
       band_low = map (\<lambda>r. fsub (Utilization_Rate r) (Volatility r)) df,
       band_high = map (\<lambda>r. fadd (Utilization_Rate r) (Volatility r)) df\<rparr>)"

definition trend_panels :: "(string \<times> frame) list \<Rightarrow> trend list" where
  "trend_panels d = map (\<lambda>(i, entry). trend_panel entry) (filter (\<lambda>(i, entry). i < 6) (py_enumerate d))"

definition colors :: "string list" where
  "colors = [''#4682b4'', ''#87ceeb'', ''#2ca02c'', ''#ff7f0e'', ''#d62728'', ''#9467bd'']"

text \<open>The timestamp of 2022-01-01, in nanoseconds.\<close>

definition cutoff :: timestamp where
  "cutoff = 1640995200 * 10 ^ 9"

text \<open>\<^verbatim>\<open>df[df['Date'] >= '2022-01-01']\<close>: a comparison with NaT is false.\<close>

definition recent :: "frame \<Rightarrow> frame" where
  "recent df = filter (\<lambda>r. case Date r of None \<Rightarrow> False | Some t \<Rightarrow> cutoff \<le> t) df"

text \<open>Lines 106 to 114: one line for each entry; \<^verbatim>\<open>colors[i]\<close> raises past the sixth.\<close>

definition comparison_line :: "nat \<times> string \<times> frame \<Rightarrow> error + line" where
  "comparison_line e =
     (let i = fst e; name = fst (snd e); df = snd (snd e); recent_df = recent df in
      if i < length colors then
        Inr \<lparr>label = name, color = colors ! i,
             linewidth = (if name = ''PADD 3'' then 2.5 else 1.5),
             line_x = map Date recent_df,
             line_y = map Utilization_Rate recent_df\<rparr>
      else Inl IndexError)"

text \<open>A legend lists the lines whose label is not empty and does not start with an underscore.\<close>

definition in_legend :: "string \<Rightarrow> bool" where
  "in_legend l = (case l of [] \<Rightarrow> False | c # cs \<Rightarrow> c \<noteq> CHR ''_'')"

text \<open>\<^verbatim>\<open>Series.mean()\<close> and \<^verbatim>\<open>Series.std()\<close>: missing cells are taken as zero in the sums and
  are left out of the number of cells; no cell, or no degree of freedom, gives NaN.\<close>

definition zero_filled :: "real option list \<Rightarrow> real list" where
  "zero_filled col = map (\<lambda>v. case v of None \<Rightarrow> 0 | Some x \<Rightarrow> x) col"

definition notna_count :: "real option list \<Rightarrow> nat" where
  "notna_count col = length (filter (\<lambda>v. v \<noteq> None) col)"

definition series_mean :: "real option list \<Rightarrow> real option" where
  "series_mean col =
     (if notna_count col = 0 then None else Some (sum_list (zero_filled col) / real (notna_count col)))"

definition series_std :: "real option list \<Rightarrow> real option" where
  "series_std col =
     (if notna_count col \<le> 1 then None
      else
        (let avg = sum_list (zero_filled col) / real (notna_count col);
             sqr = map (\<lambda>v. case v of None \<Rightarrow> 0 | Some x \<Rightarrow> (avg - x)\<^sup>2) col
         in Some (sqrt (sum_list sqr / (real (notna_count col) - 1)))))"

text \<open>Lines 124 to 127.\<close>

definition volatility_bar :: "string \<times> frame \<Rightarrow> bar" where
  "volatility_bar entry =
     \<lparr>bar_label = fst entry,
      height = series_mean (map Volatility (snd entry)),
      yerr = series_std (map Volatility (snd entry))\<rparr>"

definition render :: "(string \<times> frame) list \<Rightarrow> error + dashboard" where
  "render d =
     ebind (mapM comparison_line (py_enumerate d)) (\<lambda>lines.
       Inr \<lparr>trends = trend_panels d,
            comparison = lines,
            legend = filter in_legend (map label lines),
            bars = map volatility_bar d\<rparr>)"

subsection \<open>The whole run\<close>

datatype exit = Completed | SystemExit string | Uncaught error

record run =
  final :: state
  status :: exit
  png :: "dashboard option"

text \<open>
  \<open>png0\<close> is what \<^verbatim>\<open>refinery_dashboard.png\<close> holds before the run (\<open>None\<close>: no such file),
  \<open>png\<close> of the result what it holds afterwards.
\<close>

definition main ::
  "pandas \<Rightarrow> (string \<Rightarrow> error + json) \<Rightarrow> string option \<Rightarrow> dashboard option \<Rightarrow> run" where
  "main lib get api_key png0 =
     (let st = fetch_all lib get api_key series_ids \<lparr>dfs = [], log = [StartingFetch]\<rparr> in
      if dfs st = [] then
        \<lparr>final = logger NoDataProcessed st, status = SystemExit ''No data to plot.'', png = png0\<rparr>
      else
        (let st1 = foldl (\<lambda>s n. logger (AddedTrendPlot n) s) (logger GeneratingDashboard st)
                     (map title (trend_panels (dfs st)))
         in case render (dfs st) of
              Inl e \<Rightarrow> \<lparr>final = st1, status = Uncaught e, png = png0\<rparr>
            | Inr d \<Rightarrow>
                \<lparr>final = logger DashboardSaved (logger AddedBarChart (logger AddedComparisonPlot st1)),
                 status = Completed, png = Some d\<rparr>))"

subsection \<open>Auxiliary notions for the proofs\<close>

text \<open>The frame a region ends up with in \<open>dfs\<close>, if any: \<open>fetch_region\<close> without the log.\<close>

definition region_frame :: "pandas \<Rightarrow> (string \<Rightarrow> error + json) \<Rightarrow> string option \<Rightarrow> string \<Rightarrow> frame option" where
  "region_frame lib get api_key series_id =
     (case get (url api_key series_id) of
        Inl e \<Rightarrow> None
      | Inr response \<Rightarrow>
          (case fields_missing response of
             Inr False \<Rightarrow>
               (case ebind (py_getitem response ''response'') (\<lambda>r. py_getitem r ''data'') of
                  Inl e \<Rightarrow> None
                | Inr data \<Rightarrow>
                    if \<not> truthy data then None
                    else (case normalize_series lib data of
                            Inl e \<Rightarrow> None
                          | Inr df \<Rightarrow> if df = [] then None else Some (analysis df)))
           | _ \<Rightarrow> None))"

definition store :: "(string \<times> frame) list \<Rightarrow> string \<Rightarrow> frame option \<Rightarrow> (string \<times> frame) list" where
  "store d name r = (case r of None \<Rightarrow> d | Some fr \<Rightarrow> dict_set d name fr)"

definition entry_of :: "pandas \<Rightarrow> (string \<Rightarrow> error + json) \<Rightarrow> string option \<Rightarrow> string \<times> string \<Rightarrow> (string \<times> frame) option" where
  "entry_of lib get api_key r = map_option (Pair (fst r)) (region_frame lib get api_key (snd r))"

text \<open>The utilization rates at positions \<open>i - 3\<close> to \<open>i\<close> of a frame.\<close>

definition window_rates :: "frame \<Rightarrow> nat \<Rightarrow> number option list" where
  "window_rates fr i = map (\<lambda>k. Utilization_Rate (fr ! k)) [i - 3..<Suc i]"

text \<open>
  By the words of the specification: the response has the expected top-level fields, an
  object under \<^verbatim>\<open>response\<close> that has an entry \<^verbatim>\<open>data\<close>.
\<close>

definition has_fields :: "json \<Rightarrow> bool" where
  "has_fields response =
     (case response of
        JObj kvs \<Rightarrow>
          (case map_of kvs ''response'' of
             Some (JObj inner) \<Rightarrow> map_of inner ''data'' \<noteq> None
           | _ \<Rightarrow> False)
      | _ \<Rightarrow> False)"

text \<open>
  An ordering leaves positions of equal key in their old order on the keys \<open>ks\<close>: of two
  positions with the same key the smaller one comes first.
\<close>

definition keeps_ties :: "(timestamp list \<Rightarrow> nat list) \<Rightarrow> timestamp list \<Rightarrow> bool" where
  "keeps_ties f ks \<longleftrightarrow>
     (\<forall>p q. p < q \<and> q < length (f ks) \<and> ks ! (f ks ! p) = ks ! (f ks ! q) \<longrightarrow> f ks ! p < f ks ! q)"


text \<open>The events the fetch loop writes.\<close>

fun fetch_event :: "event \<Rightarrow> bool" where
  "fetch_event (Fetching n s) = True"
| "fetch_event (ApiCallFailed n r) = True"
| "fetch_event (NoDataReturned n) = True"
| "fetch_event (EmptyAfterCleaning n) = True"
| "fetch_event (Processed n k) = True"
| "fetch_event (ErrorProcessing n e) = True"
| "fetch_event ev = False"

text \<open>The line and the dashboard that are drawn when \<^verbatim>\<open>colors[i]\<close> does not raise.\<close>

definition line_of :: "nat \<times> string \<times> frame \<Rightarrow> line" where
  "line_of e =
     \<lparr>label = fst (snd e), color = colors ! fst e,
      linewidth = (if fst (snd e) = ''PADD 3'' then 2.5 else 1.5),
      line_x = map Date (recent (snd (snd e))),
      line_y = map Utilization_Rate (recent (snd (snd e)))\<rparr>"

definition drawn :: "(string \<times> frame) list \<Rightarrow> dashboard" where
  "drawn d =
     \<lparr>trends = trend_panels d,
      comparison = map line_of (py_enumerate d),
      legend = filter in_legend (map fst d),
      bars = map volatility_bar d\<rparr>"

text \<open>
  By the words of the specification: the arithmetic mean and the sample standard
  deviation of the entries of a column that are defined.
\<close>

definition arithmetic_mean_of_defined :: "real option list \<Rightarrow> real option" where
  "arithmetic_mean_of_defined col =
     (let xs = present col in
      if xs = [] then None else Some (sum_list xs / real (length xs)))"

definition sample_stdev_of_defined :: "real option list \<Rightarrow> real option" where
  "sample_stdev_of_defined col =
     (let xs = present col; m = sum_list xs / real (length xs) in
      if length xs < 2 then None
      else Some (sqrt ((\<Sum>x\<leftarrow>xs. (x - m)\<^sup>2) / real (length xs - 1))))"

text \<open>
  Order of two dates with NaT last: the second is missing, or both are present and the
  first is not later. A frame is in ascending order of date when every earlier row
  stands in this order to every later one.
\<close>

definition date_le :: "timestamp option \<Rightarrow> timestamp option \<Rightarrow> bool" where
  "date_le a b = (case b of None \<Rightarrow> True | Some y \<Rightarrow> (case a of None \<Rightarrow> False | Some x \<Rightarrow> x \<le> y))"

definition dates_ascending :: "frame \<Rightarrow> bool" where
  "dates_ascending fr = sorted_wrt date_le (map Date fr)"

text \<open>By the words of the specification: every row has a date and a later row a later date.\<close>

definition dates_strictly_increasing :: "frame \<Rightarrow> bool" where
  "dates_strictly_increasing fr =
     sorted_wrt (\<lambda>a b. case (a, b) of (Some x, Some y) \<Rightarrow> x < y | _ \<Rightarrow> False) (map Date fr)"




subsection \<open>Example data\<close>

text \<open>
  A stand-in for pandas on the cells of the examples: the listed ISO dates (as days since
  1970-01-01) and \<^verbatim>\<open>null\<close> as periods; JSON numbers and the strings \<^verbatim>\<open>inf\<close> and \<^verbatim>\<open>-inf\<close>
  as values, every other value cell coerced to NaN; rows of equal date keep their order,
  as they do under the default ordering on the short lists of the examples.
\<close>

definition known_dates :: "(string \<times> int) list" where
  "known_dates =
     [(''2021-12-24'', 18985), (''2021-12-31'', 18992), (''2022-01-07'', 18999),
      (''2024-01-05'', 19727), (''2024-01-12'', 19734), (''2024-01-19'', 19741),
      (''2024-01-26'', 19748), (''2024-02-02'', 19755), (''2024-02-09'', 19762),
      (''2024-02-16'', 19769), (''2024-02-23'', 19776), (''2024-03-01'', 19783),
      (''2024-03-08'', 19790)]"

definition stable_argsort :: "timestamp list \<Rightarrow> nat list" where
  "stable_argsort ks = sort_key (\<lambda>i. ks ! i) [0..<length ks]"

definition fixture :: pandas where
  "fixture =
     \<lparr>parse_datetime = (\<lambda>col c. case c of
          JNull \<Rightarrow> Inr None
        | JStr s \<Rightarrow> (case map_of known_dates s of
                      None \<Rightarrow> Inl ValueError
                    | Some days \<Rightarrow> Inr (Some (days * 86400 * 10 ^ 9)))
        | _ \<Rightarrow> Inl TypeError),
      parse_numeric = (\<lambda>col c. case c of
          JNum x \<Rightarrow> Inr (Some (Finite x))
        | JStr s \<Rightarrow> Inr (if s = ''inf'' then Some PosInf else if s = ''-inf'' then Some NegInf else None)
        | _ \<Rightarrow> Inr None),
      argsort = stable_argsort,
      frame_other = (\<lambda>d. Inl ValueError)\<rparr>"

definition record_of :: "string \<Rightarrow> real \<Rightarrow> json" where
  "record_of period v = JObj [(''period'', JStr period), (''value'', JNum v)]"

definition body :: "json \<Rightarrow> json" where
  "body data = JObj [(''response'', JObj [(''total'', JNum 10), (''data'', data)])]"

definition ten_weeks :: json where
  "ten_weeks =
     JArr [record_of ''2024-03-08'' 95, record_of ''2024-03-01'' 92, record_of ''2024-02-23'' 94,
           record_of ''2024-02-16'' 91, record_of ''2024-02-09'' 93, record_of ''2024-02-02'' 90,
           record_of ''2024-01-26'' 92, record_of ''2024-01-19'' 89, record_of ''2024-01-12'' 91,
           record_of ''2024-01-05'' 90]"

definition no_fields :: json where
  "no_fields = JObj [(''error'', JStr ''API_KEY_MISSING''), (''code'', JNum 403)]"

definition before_cutoff :: json where
  "before_cutoff = JArr [record_of ''2021-12-31'' 88, record_of ''2021-12-24'' 87]"

definition repeated_records :: "json list" where
  "repeated_records =
     [record_of ''2022-01-07'' 86, record_of ''2022-01-07'' 85,
      JObj [(''period'', JStr ''2021-12-31''), (''value'', JStr ''NA'')],
      record_of ''2021-12-31'' 84]"

definition repeated :: json where
  "repeated = JArr repeated_records"

text \<open>
  A data source for a run without credential: the first region gets ten weeks, the
  second an error body, the third an empty array, the fourth two weeks of 2021, the
  fifth no answer at all, the sixth a list with a repeated period and a missing value.
\<close>

definition demo_source :: "string \<Rightarrow> error + json" where
  "demo_source u =
     (if u = url None ''WPULEUS3'' then Inr (body ten_weeks)
      else if u = url None ''W_NA_YUP_R10_PER'' then Inr no_fields
      else if u = url None ''W_NA_YUP_R20_PER'' then Inr (body (JArr []))
      else if u = url None ''W_NA_YUP_R30_PER'' then Inr (body before_cutoff)
      else if u = url None ''W_NA_YUP_R50_PER'' then Inr (body repeated)
      else Inl RequestError)"

definition day :: "int \<Rightarrow> timestamp option" where
  "day n = Some (n * 86400 * 10 ^ 9)"

definition us_total :: frame2 where
  "us_total =
     [(day 19727, Some (Finite 90)), (day 19734, Some (Finite 91)), (day 19741, Some (Finite 89)), (day 19748, Some (Finite 92)),
      (day 19755, Some (Finite 90)), (day 19762, Some (Finite 93)), (day 19769, Some (Finite 91)), (day 19776, Some (Finite 94)),
      (day 19783, Some (Finite 92)), (day 19790, Some (Finite 95))]"

definition padd3 :: frame2 where
  "padd3 = [(day 18985, Some (Finite 87)), (day 18992, Some (Finite 88))]"

definition padd5 :: frame2 where
  "padd5 = [(day 18992, Some (Finite 84)), (day 18999, Some (Finite 86)), (day 18999, Some (Finite 85))]"

text \<open>A data source that answers every request with the error body.\<close>

definition denied :: "string \<Rightarrow> error + json" where
  "denied u = Inr no_fields"


text \<open>Four weeks, the second with an infinite value, and a source that answers with them.\<close>

definition with_infinity :: json where
  "with_infinity =
     JArr [record_of ''2024-01-26'' 92, record_of ''2024-01-19'' 91,
           JObj [(''period'', JStr ''2024-01-12''), (''value'', JStr ''inf'')],
           record_of ''2024-01-05'' 90]"

definition infinity_source :: "string \<Rightarrow> error + json" where
  "infinity_source u = Inr (body with_infinity)"

definition four_weeks :: frame2 where
  "four_weeks =
     [(day 19727, Some (Finite 90)), (day 19734, Some PosInf),
      (day 19741, Some (Finite 91)), (day 19748, Some (Finite 92))]"

lemma dfs_logger [simp]: "dfs (logger ev st) = dfs st"
  by (simp add: logger_def)

lemma log_logger [simp]: "log (logger ev st) = log st @ [ev]"
  by (simp add: logger_def)

lemma fetch_region_dfs:
  "dfs (fst (fetch_region lib get api_key name sid st)) =
     (case region_frame lib get api_key sid of None \<Rightarrow> dfs st | Some fr \<Rightarrow> dict_set (dfs st) name fr)"
  by (auto simp add: fetch_region_def region_frame_def Let_def split: sum.split bool.split)

lemma fetch_region_signal:
  "snd (fetch_region lib get api_key name sid st) = Normal \<longleftrightarrow> region_frame lib get api_key sid \<noteq> None"
  by (auto simp add: fetch_region_def region_frame_def Let_def split: sum.split bool.split)

lemma process_region_dfs:
  "dfs (process_region lib get api_key st (name, sid)) =
     (case region_frame lib get api_key sid of None \<Rightarrow> dfs st | Some fr \<Rightarrow> dict_set (dfs st) name fr)"
proof -
  obtain st' sg where f: "fetch_region lib get api_key name sid (logger (Fetching name sid) st) = (st', sg)"
    by (cases "fetch_region lib get api_key name sid (logger (Fetching name sid) st)")
  have "dfs st' = dfs (fst (fetch_region lib get api_key name sid (logger (Fetching name sid) st)))"
    using f by simp
  then have "dfs st' = (case region_frame lib get api_key sid of None \<Rightarrow> dfs st | Some fr \<Rightarrow> dict_set (dfs st) name fr)"
    by (simp add: fetch_region_dfs split: option.split)
  with f show ?thesis
    by (cases sg) (simp_all add: process_region_def)
qed

lemma process_region_store:
  "dfs (process_region lib get api_key st r) = store (dfs st) (fst r) (region_frame lib get api_key (snd r))"
  using process_region_dfs [of lib get api_key st "fst r" "snd r"] by (simp add: store_def)

lemma fetch_all_dfs:
  "dfs (fetch_all lib get api_key rs st) =
     foldl (\<lambda>d r. store d (fst r) (region_frame lib get api_key (snd r))) (dfs st) rs"
  unfolding fetch_all_def
  by (induction rs arbitrary: st) (simp_all add: process_region_store)

lemma dict_set_fresh: "k \<notin> fst ` set d \<Longrightarrow> dict_set d k v = d @ [(k, v)]"
  by (induction d) auto

lemma dict_set_keys: "fst ` set (dict_set d k v) = insert k (fst ` set d)"
  by (induction d) auto

lemma dict_set_entries: "set (dict_set d k v) \<subseteq> insert (k, v) (set d)"
  by (induction d) auto

lemma dict_set_length: "length (dict_set d k v) \<le> Suc (length d)"
  by (induction d) auto

lemma foldl_store_distinct:
  "distinct (map fst rs) \<Longrightarrow> fst ` set rs \<inter> fst ` set d = {} \<Longrightarrow>
   foldl (\<lambda>d r. store d (fst r) (region_frame lib get api_key (snd r))) d rs =
     d @ List.map_filter (entry_of lib get api_key) rs"
proof (induction rs arbitrary: d)
  case Nil
  then show ?case by (simp add: List.map_filter_simps)
next
  case (Cons r rs)
  show ?case
  proof (cases "region_frame lib get api_key (snd r)")
    case None
    with Cons show ?thesis
      by (simp add: store_def entry_of_def List.map_filter_simps)
  next
    case (Some fr)
    from Cons.prems have fresh: "fst r \<notin> fst ` set d" by auto
    have "fst ` set rs \<inter> fst ` set (dict_set d (fst r) fr) = {}"
      using Cons.prems by (auto simp: dict_set_keys)
    with Cons Some fresh show ?thesis
      by (simp add: store_def entry_of_def List.map_filter_simps dict_set_fresh)
  qed
qed

lemma fetch_all_entries:
  "distinct (map fst rs) \<Longrightarrow>
   dfs (fetch_all lib get api_key rs \<lparr>dfs = [], log = l\<rparr>) = List.map_filter (entry_of lib get api_key) rs"
  by (simp add: fetch_all_dfs foldl_store_distinct)

lemma distinct_series_ids: "distinct (map fst series_ids)"
  by (simp add: series_ids_def)

lemma length_rolling [simp]: "length (rolling w agg col) = length col"
  by (simp add: rolling_def)

lemma rolling_nth:
  "i < length col \<Longrightarrow>
   rolling w agg col ! i =
     (if length (present (map observation (window_at w col i))) < w then None
      else Some (agg (present (map observation (window_at w col i)))))"
  by (simp add: rolling_def Let_def)

lemma length_present_le: "length (present col) \<le> length col"
  by (simp add: present_def)

lemma observations_finite: "present (map (observation \<circ> (\<lambda>x. Some (Finite x))) xs) = xs"
  by (induction xs) (simp_all add: present_def)

lemma observations_fewer:
  assumes "v \<in> set col" and "observation v = None"
  shows "length (present (map observation col)) < length col"
proof -
  from assms(1) have "observation v \<in> set (map observation col)"
    by (simp only: set_map) (rule imageI)
  moreover from assms(2) have "\<not> observation v \<noteq> None"
    by simp
  ultimately have "length (filter (\<lambda>v. v \<noteq> None) (map observation col)) < length (map observation col)"
    by (rule length_filter_less)
  then show ?thesis by (simp add: present_def)
qed

lemma window_at_short: "i < 3 \<Longrightarrow> length (window_at 4 col i) < 4"
  by (simp add: window_at_def)

lemma window_at_nth:
  "w \<le> Suc i \<Longrightarrow> i < length col \<Longrightarrow> k < w \<Longrightarrow> window_at w col i ! k = col ! (Suc i - w + k)"
  by (simp add: window_at_def)

lemma window_at_4:
  assumes "3 \<le> i" and "i < length col"
  shows "window_at 4 col i = [col ! (i - 3), col ! (i - 2), col ! (i - 1), col ! i]"
proof (rule nth_equalityI)
  show "length (window_at 4 col i) = length [col ! (i - 3), col ! (i - 2), col ! (i - 1), col ! i]"
    using assms by (simp add: window_at_def)
next
  fix k assume "k < length (window_at 4 col i)"
  with assms have k: "k < 4" by (simp add: window_at_def)
  have w: "window_at 4 col i ! k = col ! (Suc i - 4 + k)"
    using assms k by (intro window_at_nth) simp_all
  have i0: "Suc i - 4 + 0 = i - 3" and i1: "Suc i - 4 + 1 = i - 2"
    and i2: "Suc i - 4 + 2 = i - 1" and i3: "Suc i - 4 + 3 = i"
    using assms by arith+
  from k consider "k = 0" | "k = 1" | "k = 2" | "k = 3" by linarith
  then show "window_at 4 col i ! k = [col ! (i - 3), col ! (i - 2), col ! (i - 1), col ! i] ! k"
  proof cases
    case 1 with w i0 show ?thesis by simp
  next
    case 2 with w i1 show ?thesis by simp
  next
    case 3 with w i2 show ?thesis by simp
  next
    case 4 with w i3 show ?thesis by simp
  qed
qed

lemma length_analysis [simp]: "length (analysis df) = length df"
  by (simp add: analysis_def Let_def)

lemma analysis_nth:
  "i < length df \<Longrightarrow>
   analysis df ! i =
     \<lparr>Date = fst (df ! i), Utilization_Rate = snd (df ! i),
      MA_4W = rolling 4 mean (map snd df) ! i,
      Volatility = rolling 4 stdev (map snd df) ! i\<rparr>"
  by (simp add: analysis_def Let_def)

lemma analysis_rates: "map Utilization_Rate (analysis df) = map snd df"
  by (rule nth_equalityI) (simp_all add: analysis_nth)

lemma analysis_dates: "map Date (analysis df) = map fst df"
  by (rule nth_equalityI) (simp_all add: analysis_nth)

lemma analysis_ma: "map MA_4W (analysis df) = rolling 4 mean (map snd df)"
  by (rule nth_equalityI) (simp_all add: analysis_nth)

lemma analysis_vol: "map Volatility (analysis df) = rolling 4 stdev (map snd df)"
  by (rule nth_equalityI) (simp_all add: analysis_nth)

lemma normalize_rates: "normalize_series lib data = Inr df \<Longrightarrow> \<forall>r\<in>set df. snd r \<noteq> None"
  by (auto simp: normalize_series_def ebind_def dropna_def split: sum.splits)

lemma region_frame_Some:
  "region_frame lib get api_key sid = Some fr \<Longrightarrow>
   \<exists>response data df. get (url api_key sid) = Inr response \<and> fields_missing response = Inr False
      \<and> ebind (py_getitem response ''response'') (\<lambda>r. py_getitem r ''data'') = Inr data
      \<and> truthy data \<and> normalize_series lib data = Inr df \<and> df \<noteq> [] \<and> fr = analysis df"
  by (auto simp: region_frame_def split: sum.splits bool.splits if_splits)

lemma dfs_trend_log [simp]: "dfs (foldl (\<lambda>s n. logger (AddedTrendPlot n) s) st ns) = dfs st"
  by (induction ns arbitrary: st) simp_all

lemma main_dfs:
  "dfs (final (main lib get api_key png0)) = List.map_filter (entry_of lib get api_key) series_ids"
  by (simp add: main_def Let_def fetch_all_entries [OF distinct_series_ids] split: sum.split)

lemma main_entry:
  assumes "(name, fr) \<in> set (dfs (final (main lib get api_key png0)))"
  shows "\<exists>sid. (name, sid) \<in> set series_ids \<and> region_frame lib get api_key sid = Some fr"
  using assms unfolding main_dfs
  by (auto simp: List.map_filter_def entry_of_def)

lemma rolling4_undefined:
  "i < length col \<Longrightarrow> i < 3 \<Longrightarrow> rolling 4 agg col ! i = None"
  using length_present_le [of "map observation (window_at 4 col i)"] window_at_short [of i col]
  by (simp add: rolling_nth)

lemma rolling4_defined:
  assumes "3 \<le> i" and "i < length col"
    and "window_at 4 col i = map (\<lambda>x. Some (Finite x)) xs"
  shows "rolling 4 agg col ! i = Some (agg xs)"
proof -
  have "length (window_at 4 col i) = 4"
    using assms(1,2) by (simp add: window_at_def)
  then have "length xs = 4"
    using assms(3) by simp
  then show ?thesis
    using assms(2,3) by (simp add: rolling_nth observations_finite)
qed

lemma rolling4_infinite:
  assumes "3 \<le> i" and "i < length col"
    and "Some PosInf \<in> set (window_at 4 col i) \<or> Some NegInf \<in> set (window_at 4 col i)"
  shows "rolling 4 agg col ! i = None"
proof -
  from assms(3) obtain v where "v \<in> set (window_at 4 col i)" and "observation v = None"
    by auto
  then have "length (present (map observation (window_at 4 col i))) < length (window_at 4 col i)"
    by (rule observations_fewer)
  moreover have "length (window_at 4 col i) = 4"
    using assms(1,2) by (simp add: window_at_def)
  ultimately show ?thesis
    using assms(2) by (simp add: rolling_nth)
qed

lemma mean_4: "mean [a, b, c, d] = (a + b + c + d) / 4"
  by (simp add: mean_def)

lemma stdev_4:
  "stdev [a, b, c, d] =
     sqrt (((a - (a + b + c + d) / 4)\<^sup>2 + (b - (a + b + c + d) / 4)\<^sup>2
          + (c - (a + b + c + d) / 4)\<^sup>2 + (d - (a + b + c + d) / 4)\<^sup>2) / 3)"
  by (simp add: stdev_def mean_4)

lemma upt_4: "3 \<le> i \<Longrightarrow> [i - 3..<Suc i] = [i - 3, i - 2, i - 1, i]"
proof -
  assume a: "3 \<le> i"
  then obtain j where j: "i = j + 3" by (metis le_add_diff_inverse2)
  have "[j..<Suc (j + 3)] = [j, j + 1, j + 2, j + 3]"
    by (simp add: upt_conv_Cons numeral_3_eq_3)
  with j show ?thesis by simp
qed

lemma window_rates_analysis:
  assumes "3 \<le> i" and "i < length df"
  shows "window_rates (analysis df) i = window_at 4 (map snd df) i"
proof -
  have "window_rates (analysis df) i = map (\<lambda>k. Utilization_Rate (analysis df ! k)) [i - 3, i - 2, i - 1, i]"
    unfolding window_rates_def upt_4 [OF assms(1)] ..
  also have "\<dots> = [snd (df ! (i - 3)), snd (df ! (i - 2)), snd (df ! (i - 1)), snd (df ! i)]"
    using assms by (simp add: analysis_nth)
  also have "\<dots> = window_at 4 (map snd df) i"
    using assms by (simp add: window_at_4)
  finally show ?thesis .
qed

lemma frame_rolling:
  assumes n: "normalize_series lib data = Inr df" and i: "i < length df"
  shows "Utilization_Rate (analysis df ! i) \<noteq> None"
    and "i < 3 \<Longrightarrow> MA_4W (analysis df ! i) = None \<and> Volatility (analysis df ! i) = None"
    and "3 \<le> i \<Longrightarrow> window_rates (analysis df) i = map (\<lambda>x. Some (Finite x)) xs \<Longrightarrow>
          MA_4W (analysis df ! i) = Some (mean xs) \<and> Volatility (analysis df ! i) = Some (stdev xs)"
    and "3 \<le> i \<Longrightarrow>
          Some PosInf \<in> set (window_rates (analysis df) i) \<or> Some NegInf \<in> set (window_rates (analysis df) i) \<Longrightarrow>
          MA_4W (analysis df ! i) = None \<and> Volatility (analysis df ! i) = None"
proof -
  let ?col = "map snd df"
  have all: "\<forall>v\<in>set ?col. v \<noteq> None"
    using normalize_rates [OF n] by simp
  show "Utilization_Rate (analysis df ! i) \<noteq> None"
    using all i by (simp add: analysis_nth)
  show "MA_4W (analysis df ! i) = None \<and> Volatility (analysis df ! i) = None" if "i < 3"
    using that i by (simp add: analysis_nth rolling4_undefined)
  show "MA_4W (analysis df ! i) = Some (mean xs) \<and> Volatility (analysis df ! i) = Some (stdev xs)"
    if "3 \<le> i" and "window_rates (analysis df) i = map (\<lambda>x. Some (Finite x)) xs"
  proof -
    from that have w: "window_at 4 ?col i = map (\<lambda>x. Some (Finite x)) xs"
      using i by (simp add: window_rates_analysis)
    have l: "i < length ?col" using i by simp
    show ?thesis
      using i by (simp add: analysis_nth rolling4_defined [OF that(1) l w])
  qed
  show "MA_4W (analysis df ! i) = None \<and> Volatility (analysis df ! i) = None"
    if "3 \<le> i"
      and "Some PosInf \<in> set (window_rates (analysis df) i) \<or> Some NegInf \<in> set (window_rates (analysis df) i)"
  proof -
    from that have w: "Some PosInf \<in> set (window_at 4 ?col i) \<or> Some NegInf \<in> set (window_at 4 ?col i)"
      using i by (simp add: window_rates_analysis)
    have l: "i < length ?col" using i by simp
    show ?thesis
      using i by (simp add: analysis_nth rolling4_infinite [OF that(1) l w])
  qed
qed

lemma argsort_ok_stable: "argsort_ok stable_argsort"
  by (simp add: argsort_ok_def stable_argsort_def)

lemma fields_body: "fields_missing (body d) = Inr False"
  by (simp add: body_def fields_missing_def ebind_def)

lemma data_body: "ebind (py_getitem (body d) ''response'') (\<lambda>r. py_getitem r ''data'') = Inr d"
  by (simp add: body_def ebind_def)

lemma url_inject [simp]: "url k s = url k s' \<longleftrightarrow> s = s'"
  by (simp add: url_def)

lemmas fixture_eval =
  normalize_series_def record_of_def DataFrame_def to_datetime_def to_numeric_def fixture_def
  known_dates_def ebind_def sort_values_def dropna_def stable_argsort_def upt_conv_Cons day_def

lemma normalize_ten_weeks: "normalize_series fixture ten_weeks = Inr us_total"
  by (simp add: ten_weeks_def us_total_def fixture_eval)

lemma normalize_before_cutoff: "normalize_series fixture before_cutoff = Inr padd3"
  by (simp add: before_cutoff_def padd3_def fixture_eval)

lemma normalize_repeated: "normalize_series fixture repeated = Inr padd5"
  by (simp add: repeated_def repeated_records_def padd5_def fixture_eval)

lemma truthy_examples: "truthy ten_weeks" "truthy before_cutoff" "truthy repeated"
  by (simp_all add: ten_weeks_def before_cutoff_def repeated_def repeated_records_def)

lemma fields_no_fields: "fields_missing no_fields = Inr True"
  by (simp add: no_fields_def fields_missing_def ebind_def)

lemma demo_frames:
  "region_frame fixture demo_source None ''WPULEUS3'' = Some (analysis us_total)"
  "region_frame fixture demo_source None ''W_NA_YUP_R10_PER'' = None"
  "region_frame fixture demo_source None ''W_NA_YUP_R20_PER'' = None"
  "region_frame fixture demo_source None ''W_NA_YUP_R30_PER'' = Some (analysis padd3)"
  "region_frame fixture demo_source None ''W_NA_YUP_R40_PER'' = None"
  "region_frame fixture demo_source None ''W_NA_YUP_R50_PER'' = Some (analysis padd5)"
  by (simp_all add: region_frame_def demo_source_def fields_body data_body truthy_examples
      normalize_ten_weeks normalize_before_cutoff normalize_repeated
      fields_no_fields us_total_def padd3_def padd5_def)

lemma demo_dfs:
  "dfs (final (main fixture demo_source None p)) =
     [(''U.S. Total'', analysis us_total), (''PADD 3'', analysis padd3), (''PADD 5'', analysis padd5)]"
  by (simp add: main_dfs series_ids_def List.map_filter_simps entry_of_def demo_frames)

lemma fetch_region_log:
  "set (log (fst (fetch_region lib get api_key name sid st))) \<subseteq> set (log st) \<union> Collect fetch_event"
  by (auto simp add: fetch_region_def Let_def split: sum.split bool.split)

lemma process_region_log:
  "set (log (process_region lib get api_key st r)) \<subseteq> set (log st) \<union> Collect fetch_event"
proof -
  let ?st0 = "logger (Fetching (fst r) (snd r)) st"
  obtain st' sg where f: "fetch_region lib get api_key (fst r) (snd r) ?st0 = (st', sg)"
    by (cases "fetch_region lib get api_key (fst r) (snd r) ?st0")
  have "set (log st') \<subseteq> set (log ?st0) \<union> Collect fetch_event"
    using fetch_region_log [of lib get api_key "fst r" "snd r" ?st0] f by simp
  then have "set (log st') \<subseteq> set (log st) \<union> Collect fetch_event"
    by auto
  with f show ?thesis
    by (cases sg) (auto simp add: process_region_def)
qed

lemma fetch_all_log:
  "set (log (fetch_all lib get api_key rs st)) \<subseteq> set (log st) \<union> Collect fetch_event"
  unfolding fetch_all_def
proof (induction rs arbitrary: st)
  case Nil
  then show ?case by simp
next
  case (Cons r rs)
  from Cons.IH [of "process_region lib get api_key st r"]
    process_region_log [of lib get api_key st r]
  show ?case by auto
qed

lemma map_filter_empty: "\<forall>x\<in>set xs. f x = None \<Longrightarrow> List.map_filter f xs = []"
  by (induction xs) (simp_all add: List.map_filter_simps)

lemma map_filter_keys:
  "fst ` set (List.map_filter (entry_of lib get api_key) rs) =
     {fst r | r. r \<in> set rs \<and> region_frame lib get api_key (snd r) \<noteq> None}"
  by (induction rs) (auto simp add: List.map_filter_simps entry_of_def split: option.splits)

lemma series_ids_unique:
  "(name, sid) \<in> set series_ids \<Longrightarrow> (name, sid') \<in> set series_ids \<Longrightarrow> sid = sid'"
  using distinct_series_ids by (rule eq_key_imp_eq_value)

lemma final_keys:
  "name \<in> fst ` set (dfs (final (main lib get api_key png0))) \<longleftrightarrow>
     (\<exists>sid. (name, sid) \<in> set series_ids \<and> region_frame lib get api_key sid \<noteq> None)"
  unfolding main_dfs map_filter_keys by force

lemma fetch_region_missing:
  assumes "get (url api_key sid) = Inr response" and "fields_missing response = Inr True"
  shows "fetch_region lib get api_key name sid st = (logger (ApiCallFailed name response) st, Raise ValueError)"
  using assms by (simp add: fetch_region_def)

lemma region_frame_missing:
  assumes "get (url api_key sid) = Inr response" and "fields_missing response = Inr True"
  shows "region_frame lib get api_key sid = None"
  using assms by (simp add: region_frame_def)

lemma foldl_store_skip:
  "region_frame lib get api_key (snd r) = None \<Longrightarrow>
   foldl (\<lambda>d r. store d (fst r) (region_frame lib get api_key (snd r))) d (before @ r # after) =
   foldl (\<lambda>d r. store d (fst r) (region_frame lib get api_key (snd r))) d (before @ after)"
  by (simp add: store_def)

lemma mapM_Inr: "\<forall>x\<in>set xs. f x = Inr (g x) \<Longrightarrow> mapM f xs = Inr (map g xs)"
  by (induction xs) (simp_all add: ebind_def)

lemma length_enumerate [simp]: "length (py_enumerate d) = length d"
  by (simp add: py_enumerate_def)

lemma enumerate_nth: "i < length d \<Longrightarrow> py_enumerate d ! i = (i, d ! i)"
  by (simp add: py_enumerate_def)

lemma enumerate_fst: "e \<in> set (py_enumerate d) \<Longrightarrow> fst e < length d"
  by (auto simp add: py_enumerate_def in_set_zip)

lemma enumerate_snd: "e \<in> set (py_enumerate d) \<Longrightarrow> snd e \<in> set d"
  by (cases e) (auto simp add: py_enumerate_def dest: set_zip_rightD)

lemma comparison_line_ok: "fst e < 6 \<Longrightarrow> comparison_line e = Inr (line_of e)"
  by (simp add: comparison_line_def line_of_def Let_def colors_def)

lemma labels_drawn: "map (label \<circ> line_of) (py_enumerate d) = map fst d"
  by (rule nth_equalityI) (simp_all add: enumerate_nth line_of_def)

lemma render_ok:
  assumes "length d \<le> 6"
  shows "render d = Inr (drawn d)"
proof -
  have "\<forall>e\<in>set (py_enumerate d). comparison_line e = Inr (line_of e)"
    using assms by (auto dest!: enumerate_fst intro!: comparison_line_ok)
  then have "mapM comparison_line (py_enumerate d) = Inr (map line_of (py_enumerate d))"
    by (rule mapM_Inr)
  then show ?thesis
    by (simp add: render_def ebind_def drawn_def labels_drawn)
qed

lemma length_map_filter_le: "length (List.map_filter f xs) \<le> length xs"
  by (induction xs) (simp_all add: List.map_filter_simps split: option.split)

lemma fetched_length:
  "length (dfs (fetch_all lib get api_key series_ids \<lparr>dfs = [], log = l\<rparr>)) \<le> 6"
  using length_map_filter_le [of "entry_of lib get api_key" series_ids]
  by (simp add: fetch_all_entries [OF distinct_series_ids]) (simp add: series_ids_def)

lemma main_completed:
  assumes "dfs (final (main lib get api_key png0)) \<noteq> []"
  shows "status (main lib get api_key png0) = Completed"
    and "png (main lib get api_key png0) = Some (drawn (dfs (final (main lib get api_key png0))))"
proof -
  let ?st = "fetch_all lib get api_key series_ids \<lparr>dfs = [], log = [StartingFetch]\<rparr>"
  have d: "dfs (final (main lib get api_key png0)) = dfs ?st"
    by (simp add: main_dfs fetch_all_entries [OF distinct_series_ids])
  with assms have ne: "dfs ?st \<noteq> []" by simp
  have r: "render (dfs ?st) = Inr (drawn (dfs ?st))"
    by (rule render_ok) (rule fetched_length)
  show "status (main lib get api_key png0) = Completed"
    using ne r by (simp add: main_def Let_def)
  show "png (main lib get api_key png0) = Some (drawn (dfs (final (main lib get api_key png0))))"
    unfolding d using ne r by (simp add: main_def Let_def)
qed

lemma main_completed_iff:
  "status (main lib get api_key png0) = Completed \<longleftrightarrow> dfs (final (main lib get api_key png0)) \<noteq> []"
proof
  assume "dfs (final (main lib get api_key png0)) \<noteq> []"
  then show "status (main lib get api_key png0) = Completed" by (rule main_completed)
next
  assume c: "status (main lib get api_key png0) = Completed"
  show "dfs (final (main lib get api_key png0)) \<noteq> []"
  proof
    assume e: "dfs (final (main lib get api_key png0)) = []"
    let ?st = "fetch_all lib get api_key series_ids \<lparr>dfs = [], log = [StartingFetch]\<rparr>"
    have "dfs ?st = []"
      using e by (simp add: main_dfs fetch_all_entries [OF distinct_series_ids])
    then have "status (main lib get api_key png0) = SystemExit ''No data to plot.''"
      by (simp add: main_def Let_def)
    with c show False by simp
  qed
qed

lemma title_trend_panel [simp]: "title (trend_panel e) = fst e"
  by (simp add: trend_panel_def Let_def)

lemma trend_titles: "set (map title (trend_panels d)) \<subseteq> fst ` set d"
proof
  fix n assume "n \<in> set (map title (trend_panels d))"
  then obtain e where e: "e \<in> set (py_enumerate d)" and n: "n = fst (snd e)"
    by (auto simp add: trend_panels_def)
  from enumerate_snd [OF e] n show "n \<in> fst ` set d" by simp
qed

lemma bar_label_volatility_bar [simp]: "bar_label (volatility_bar e) = fst e"
  by (simp add: volatility_bar_def)

lemma drawn_titles: "set (map title (trends (drawn d))) \<subseteq> fst ` set d"
  using trend_titles [of d] by (simp add: drawn_def)

lemma drawn_labels: "map label (comparison (drawn d)) = map fst d"
  by (simp add: drawn_def labels_drawn)

lemma drawn_legend: "set (legend (drawn d)) \<subseteq> fst ` set d"
  by (auto simp add: drawn_def)

lemma drawn_bar_labels: "map bar_label (bars (drawn d)) = map fst d"
  by (simp add: drawn_def comp_def)

lemma series_names_in_legend: "\<forall>r\<in>set series_ids. in_legend (fst r)"
  by (simp add: series_ids_def in_legend_def)

lemma sum_zero_filled: "sum_list (zero_filled col) = sum_list (present col)"
  by (induction col) (simp_all add: zero_filled_def present_def split: option.split)

lemma count_present: "notna_count col = length (present col)"
  by (simp add: notna_count_def present_def)

lemma sum_squares_present:
  "sum_list (map (\<lambda>v. case v of None \<Rightarrow> 0 | Some x \<Rightarrow> (avg - x)\<^sup>2) col) =
     (\<Sum>x\<leftarrow>present col. (x - avg)\<^sup>2)"
  by (induction col) (simp_all add: present_def power2_commute split: option.split)

lemma series_mean_spec: "series_mean col = arithmetic_mean_of_defined col"
  by (simp add: series_mean_def arithmetic_mean_of_defined_def sum_zero_filled count_present Let_def)

lemma series_std_spec: "series_std col = sample_stdev_of_defined col"
proof (cases "length (present col) < 2")
  case True
  then have "notna_count col \<le> 1" by (simp add: count_present)
  with True show ?thesis
    by (simp add: series_std_def sample_stdev_of_defined_def Let_def count_present)
next
  case False
  then have c: "\<not> notna_count col \<le> 1" by (simp add: count_present)
  have "real (length (present col) - 1) = real (length (present col)) - 1"
    using False by (simp add: of_nat_diff)
  with False c show ?thesis
    by (simp add: series_std_def sample_stdev_of_defined_def Let_def count_present
        sum_zero_filled sum_squares_present)
qed

lemma recent_filter:
  "recent fr = filter (\<lambda>r. \<exists>t. Date r = Some t \<and> cutoff \<le> t) fr"
  unfolding recent_def by (rule filter_cong) (auto split: option.split)

lemma well_formed_data:
  assumes "map_of kvs ''response'' = Some (JObj inner)" and "map_of inner ''data'' = Some d"
  shows "fields_missing (JObj kvs) = Inr False"
    and "ebind (py_getitem (JObj kvs) ''response'') (\<lambda>r. py_getitem r ''data'') = Inr d"
proof -
  from assms(1) have "(''response'', JObj inner) \<in> set kvs" by (rule map_of_SomeD)
  then have 1: "''response'' \<in> fst ` set kvs" by (rule rev_image_eqI) simp
  from assms(2) have "(''data'', d) \<in> set inner" by (rule map_of_SomeD)
  then have 2: "''data'' \<in> fst ` set inner" by (rule rev_image_eqI) simp
  show "fields_missing (JObj kvs) = Inr False"
    using 1 2 assms(1) by (simp add: fields_missing_def ebind_def)
  show "ebind (py_getitem (JObj kvs) ''response'') (\<lambda>r. py_getitem r ''data'') = Inr d"
    using assms by (simp add: ebind_def)
qed

lemma region_succeeds_entry:
  assumes "r \<in> set series_ids" and "snd (fetch_region lib get api_key (fst r) (snd r) st) = Normal"
  shows "dfs (final (main lib get api_key png0)) \<noteq> []"
proof -
  from assms(2) have "region_frame lib get api_key (snd r) \<noteq> None"
    by (simp add: fetch_region_signal)
  with assms(1) have "fst r \<in> fst ` set (dfs (final (main lib get api_key png0)))"
    unfolding final_keys by (intro exI [of _ "snd r"]) simp
  then show ?thesis by auto
qed

lemma padd3_old: "\<forall>r\<in>set (analysis padd3). \<forall>t. Date r = Some t \<longrightarrow> t < cutoff"
proof
  fix r assume "r \<in> set (analysis padd3)"
  then have "Date r \<in> set (map Date (analysis padd3))" by simp
  then have "Date r \<in> set (map fst padd3)" by (simp only: analysis_dates)
  then show "\<forall>t. Date r = Some t \<longrightarrow> t < cutoff"
    by (auto simp add: padd3_def day_def cutoff_def)
qed

lemma body_fields:
  "map_of [(''response'', JObj [(''total'', JNum 10), (''data'', d)])] ''response''
     = Some (JObj [(''total'', JNum 10), (''data'', d)])"
  "map_of [(''total'', JNum 10), (''data'', d)] ''data'' = Some d"
  by simp_all

lemma argsort_ok_set: "argsort_ok f \<Longrightarrow> set (f ks) = {0..<length ks}"
proof -
  assume "argsort_ok f"
  then have "mset (f ks) = mset [0..<length ks]" by (simp add: argsort_ok_def)
  then have "set_mset (mset (f ks)) = set_mset (mset [0..<length ks])" by simp
  then show ?thesis by simp
qed

lemma mset_permuted:
  assumes "mset idx = mset [0..<length xs]"
  shows "mset (map (\<lambda>i. xs ! i) idx) = mset xs"
proof -
  have "mset (map (\<lambda>i. xs ! i) idx) = image_mset (\<lambda>i. xs ! i) (mset idx)" by simp
  also have "\<dots> = image_mset (\<lambda>i. xs ! i) (mset [0..<length xs])" using assms by simp
  also have "\<dots> = mset (map (\<lambda>i. xs ! i) [0..<length xs])" by simp
  also have "\<dots> = mset xs" by (simp only: map_nth)
  finally show ?thesis .
qed

lemma mset_sort_values:
  assumes "argsort_ok (argsort lib)"
  shows "mset (sort_values lib df) = mset df"
proof -
  let ?dated = "filter (\<lambda>r. fst r \<noteq> None) df"
  let ?ks = "map (\<lambda>r. the (fst r)) ?dated"
  have "mset (argsort lib ?ks) = mset [0..<length ?dated]"
    using assms by (simp add: argsort_ok_def)
  then have "mset (map (\<lambda>i. ?dated ! i) (argsort lib ?ks)) = mset ?dated"
    by (rule mset_permuted)
  then show ?thesis
    by (simp add: sort_values_def Let_def)
qed

lemma date_le_Some [simp]: "date_le (Some x) (Some y) \<longleftrightarrow> x \<le> y"
  by (simp add: date_le_def)

lemma date_le_None [simp]: "date_le a None"
  by (simp add: date_le_def)


lemma sorted_wrt_all_None: "\<forall>y\<in>set ys. y = None \<Longrightarrow> sorted_wrt date_le ys"
  by (induction ys) auto

lemma sorted_sort_values:
  assumes "argsort_ok (argsort lib)"
  shows "sorted_wrt date_le (map fst (sort_values lib df))"
proof -
  let ?dated = "filter (\<lambda>r. fst r \<noteq> None) df"
  let ?undated = "filter (\<lambda>r. fst r = None) df"
  let ?ks = "map (\<lambda>r. the (fst r)) ?dated"
  let ?idx = "argsort lib ?ks"
  have s: "sorted (map (\<lambda>i. ?ks ! i) ?idx)"
    using assms by (simp add: argsort_ok_def)
  have r: "set ?idx = {0..<length ?dated}"
    using argsort_ok_set [OF assms, of ?ks] by simp
  have "fst (?dated ! i) = Some (?ks ! i)" if "i \<in> set ?idx" for i
  proof -
    from that r have i: "i < length ?dated" by simp
    then have "?dated ! i \<in> set ?dated" by (rule nth_mem)
    then have "fst (?dated ! i) \<noteq> None" by simp
    with i show ?thesis by simp
  qed
  then have m: "map (\<lambda>i. fst (?dated ! i)) ?idx = map Some (map (\<lambda>i. ?ks ! i) ?idx)"
    by simp
  have a: "sorted_wrt date_le (map Some (map (\<lambda>i. ?ks ! i) ?idx))"
    using s by (simp add: sorted_wrt_map del: map_map)
  have b: "sorted_wrt date_le (map fst ?undated)"
    by (rule sorted_wrt_all_None) auto
  have c: "\<forall>x\<in>set (map Some (map (\<lambda>i. ?ks ! i) ?idx)). \<forall>y\<in>set (map fst ?undated). date_le x y"
    by auto
  have "map fst (sort_values lib df) = map Some (map (\<lambda>i. ?ks ! i) ?idx) @ map fst ?undated"
    using m by (simp add: sort_values_def Let_def comp_def)
  moreover have "sorted_wrt date_le (map Some (map (\<lambda>i. ?ks ! i) ?idx) @ map fst ?undated)"
    using a b c by (simp only: sorted_wrt_append simp_thms)
  ultimately show ?thesis by simp
qed

lemma sorted_dropna: "sorted_wrt date_le (map fst df) \<Longrightarrow> sorted_wrt date_le (map fst (dropna df))"
  by (simp add: sorted_wrt_map dropna_def sorted_wrt_filter)

lemma normalize_parts:
  assumes "normalize_series lib data = Inr df"
  shows "\<exists>cells dates rates. DataFrame lib data = Inr cells
     \<and> to_datetime lib (map fst cells) = Inr dates
     \<and> to_numeric lib (map snd cells) = Inr rates
     \<and> df = dropna (sort_values lib (zip dates rates))"
  using assms by (auto simp add: normalize_series_def ebind_def split: sum.splits)

lemma normalize_sorted:
  assumes "argsort_ok (argsort lib)" and "normalize_series lib data = Inr df"
  shows "sorted_wrt date_le (map fst df)"
  using normalize_parts [OF assms(2)] sorted_dropna [OF sorted_sort_values [OF assms(1)]]
  by blast




lemma padd5_not_strict: "\<not> dates_strictly_increasing (analysis padd5)"
  by (simp add: dates_strictly_increasing_def analysis_dates padd5_def day_def)

lemma normalize_with_infinity: "normalize_series fixture with_infinity = Inr four_weeks"
  by (simp add: with_infinity_def four_weeks_def fixture_eval)

lemma infinity_dfs:
  "(''U.S. Total'', analysis four_weeks) \<in> set (dfs (final (main fixture infinity_source None None)))"
proof -
  have "truthy with_infinity" by (simp add: with_infinity_def)
  then have "region_frame fixture infinity_source None ''WPULEUS3'' = Some (analysis four_weeks)"
    by (simp add: region_frame_def infinity_source_def fields_body data_body normalize_with_infinity
        four_weeks_def)
  then show ?thesis
    by (simp add: main_dfs series_ids_def List.map_filter_simps entry_of_def)
qed

lemma py_in_object: "py_in k (JObj kvs) = Inr (map_of kvs k \<noteq> None)"
  by (simp add: map_of_eq_None_iff)

lemma lacking_data:
  assumes "\<not> has_fields response" and "fields_missing response = Inr False"
  shows "\<exists>e. ebind (py_getitem response ''response'') (\<lambda>r. py_getitem r ''data'') = Inl e"
proof (cases response)
  case (JObj kvs)
  show ?thesis
  proof (cases "map_of kvs ''response''")
    case None
    with JObj assms(2) show ?thesis
      by (simp add: fields_missing_def ebind_def py_in_object del: py_in.simps)
  next
    case (Some v)
    show ?thesis
    proof (cases v)
      case (JObj inner)
      with Some \<open>response = JObj kvs\<close> assms show ?thesis
        by (simp add: fields_missing_def ebind_def py_in_object has_fields_def del: py_in.simps)
    qed (use Some \<open>response = JObj kvs\<close> in \<open>simp_all add: ebind_def\<close>)
  qed
qed (simp_all add: ebind_def)

lemma lacking_raises:
  assumes "get (url api_key sid) = Inr response" and "\<not> has_fields response"
  shows "\<exists>e. fetch_region lib get api_key name sid st =
           (if fields_missing response = Inr True then logger (ApiCallFailed name response) st else st,
            Raise e)"
proof (cases "fields_missing response")
  case (Inl e)
  with assms(1) show ?thesis by (simp add: fetch_region_def)
next
  case (Inr b)
  show ?thesis
  proof (cases b)
    case True
    with Inr assms(1) show ?thesis by (simp add: fetch_region_def)
  next
    case False
    with Inr have f: "fields_missing response = Inr False" by simp
    from lacking_data [OF assms(2) f] obtain e
      where "ebind (py_getitem response ''response'') (\<lambda>r. py_getitem r ''data'') = Inl e"
      by blast
    with f assms(1) show ?thesis by (simp add: fetch_region_def)
  qed
qed

lemma lacking_region_frame:
  assumes "get (url api_key sid) = Inr response" and "\<not> has_fields response"
  shows "region_frame lib get api_key sid = None"
proof -
  from lacking_raises [where get = get and api_key = api_key and sid = sid, OF assms, of lib name st]
  obtain e
    where "snd (fetch_region lib get api_key name sid st) = Raise e"
    by (metis snd_conv)
  then have "snd (fetch_region lib get api_key name sid st) \<noteq> Normal" by simp
  then show ?thesis by (simp add: fetch_region_signal)
qed

lemma fetch_region_log_mono:
  "set (log st) \<subseteq> set (log (fst (fetch_region lib get api_key name sid st)))"
  by (auto simp add: fetch_region_def Let_def split: sum.split bool.split)

lemma process_region_log_mono:
  "set (log st) \<union> {Fetching (fst r) (snd r)} \<subseteq> set (log (process_region lib get api_key st r))"
proof -
  let ?st0 = "logger (Fetching (fst r) (snd r)) st"
  obtain st' sg where f: "fetch_region lib get api_key (fst r) (snd r) ?st0 = (st', sg)"
    by (cases "fetch_region lib get api_key (fst r) (snd r) ?st0")
  have "set (log ?st0) \<subseteq> set (log st')"
    using fetch_region_log_mono [of ?st0 lib get api_key "fst r" "snd r"] f by simp
  then have "set (log st) \<union> {Fetching (fst r) (snd r)} \<subseteq> set (log st')"
    by auto
  with f show ?thesis
    by (cases sg) (auto simp add: process_region_def)
qed

lemma fetch_all_log_mono:
  "set (log st) \<subseteq> set (log (fetch_all lib get api_key rs st))"
  unfolding fetch_all_def
proof (induction rs arbitrary: st)
  case Nil
  then show ?case by simp
next
  case (Cons r rs)
  from Cons.IH [of "process_region lib get api_key st r"]
    process_region_log_mono [of st r lib get api_key]
  show ?case by auto
qed

lemma fetch_all_attempts:
  "r \<in> set rs \<Longrightarrow> Fetching (fst r) (snd r) \<in> set (log (fetch_all lib get api_key rs st))"
proof (induction rs arbitrary: st)
  case Nil
  then show ?case by simp
next
  case (Cons a rs)
  show ?case
  proof (cases "r = a")
    case True
    have "Fetching (fst r) (snd r) \<in> set (log (process_region lib get api_key st r))"
      using process_region_log_mono [of st r lib get api_key] by auto
    then have "Fetching (fst r) (snd r)
        \<in> set (log (fetch_all lib get api_key rs (process_region lib get api_key st r)))"
      using fetch_all_log_mono [of "process_region lib get api_key st r" lib get api_key rs] by auto
    with True show ?thesis by (simp add: fetch_all_def)
  next
    case False
    with Cons.prems have "r \<in> set rs" by simp
    from Cons.IH [OF this, of "process_region lib get api_key st a"]
    show ?thesis by (simp add: fetch_all_def)
  qed
qed

lemma fetch_all_append:
  "fetch_all lib get api_key (xs @ ys) st = fetch_all lib get api_key ys (fetch_all lib get api_key xs st)"
  by (simp add: fetch_all_def)

lemma foldl_store_keys:
  "fst ` set (foldl (\<lambda>d r. store d (fst r) (region_frame lib get api_key (snd r))) d rs) =
     fst ` set d \<union> fst ` {r \<in> set rs. region_frame lib get api_key (snd r) \<noteq> None}"
proof (induction rs arbitrary: d)
  case Nil
  then show ?case by simp
next
  case (Cons a rs)
  show ?case
  proof (cases "region_frame lib get api_key (snd a)")
    case None
    with Cons.IH [of d] show ?thesis by (auto simp add: store_def)
  next
    case (Some fr)
    with Cons.IH [of "dict_set d (fst a) fr"] show ?thesis
      by (auto simp add: store_def dict_set_keys)
  qed
qed

lemma fetch_all_stores:
  assumes "r \<in> set rs" and "snd (fetch_region lib get api_key (fst r) (snd r) st') = Normal"
  shows "fst r \<in> fst ` set (dfs (fetch_all lib get api_key rs st))"
proof -
  from assms(2) have "region_frame lib get api_key (snd r) \<noteq> None"
    by (simp add: fetch_region_signal)
  with assms(1) have "fst r \<in> fst ` {r \<in> set rs. region_frame lib get api_key (snd r) \<noteq> None}"
    by (intro imageI) simp
  then show ?thesis
    unfolding fetch_all_dfs foldl_store_keys by (rule UnI2)
qed

lemma main_stores:
  assumes "r \<in> set series_ids" and "snd (fetch_region lib get api_key (fst r) (snd r) st') = Normal"
  shows "\<exists>fr. (fst r, fr) \<in> set (dfs (final (main lib get api_key png0)))
      \<and> dfs (fst (fetch_region lib get api_key (fst r) (snd r) \<lparr>dfs = [], log = []\<rparr>)) = [(fst r, fr)]"
proof -
  from assms(2) obtain fr where fr: "region_frame lib get api_key (snd r) = Some fr"
    by (auto simp add: fetch_region_signal)
  then have "entry_of lib get api_key r = Some (fst r, fr)"
    by (simp add: entry_of_def)
  with assms(1) have "(fst r, fr) \<in> set (dfs (final (main lib get api_key png0)))"
    unfolding main_dfs by (force simp add: List.map_filter_def)
  moreover have "dfs (fst (fetch_region lib get api_key (fst r) (snd r) \<lparr>dfs = [], log = []\<rparr>)) = [(fst r, fr)]"
    by (simp add: fetch_region_dfs fr)
  ultimately show ?thesis by blast
qed









lemma filter_sorted_wrt_nth:
  "sorted_wrt R (filter P xs) \<Longrightarrow> p < q \<Longrightarrow> q < length xs \<Longrightarrow> P (xs ! p) \<Longrightarrow> P (xs ! q) \<Longrightarrow>
   R (xs ! p) (xs ! q)"
proof (induction xs arbitrary: p q)
  case Nil
  then show ?case by simp
next
  case (Cons x xs)
  from Cons.prems(2) obtain q' where q: "q = Suc q'" by (cases q) simp_all
  show ?case
  proof (cases p)
    case 0
    with Cons.prems have "P x" by simp
    with Cons.prems(1) have "\<forall>y\<in>set (filter P xs). R x y" by simp
    moreover from Cons.prems(3,5) q have "xs ! q' \<in> set (filter P xs)" by simp
    ultimately show ?thesis using 0 q by simp
  next
    case (Suc p')
    from Cons.prems(1) have "sorted_wrt R (filter P xs)" by (simp split: if_splits)
    from Cons.IH [OF this, of p' q'] Cons.prems Suc q show ?thesis by simp
  qed
qed

lemma keeps_ties_stable: "keeps_ties stable_argsort ks"
  unfolding keeps_ties_def
proof (intro allI impI)
  fix p q
  let ?idx = "stable_argsort ks"
  assume a: "p < q \<and> q < length ?idx \<and> ks ! (?idx ! p) = ks ! (?idx ! q)"
  let ?k = "ks ! (?idx ! q)"
  have "filter (\<lambda>i. ks ! i = ?k) ?idx = filter (\<lambda>i. ks ! i = ?k) [0..<length ks]"
    unfolding stable_argsort_def by (rule sort_key_stable)
  moreover have "sorted_wrt (<) (filter (\<lambda>i. ks ! i = ?k) [0..<length ks])"
    by (rule sorted_wrt_filter) simp
  ultimately have "sorted_wrt (<) (filter (\<lambda>i. ks ! i = ?k) ?idx)" by simp
  from filter_sorted_wrt_nth [OF this, of p q] a show "?idx ! p < ?idx ! q" by simp
qed

section \<open>The claims\<close>

text \<open>
  C1. As stated the claim fails: a rate may be infinite (\<^verbatim>\<open>to_numeric\<close> reads \<^verbatim>\<open>inf\<close>, and
  \<^verbatim>\<open>dropna\<close> keeps it), and \<^verbatim>\<open>rolling\<close> gives no value for a window that holds an infinite
  rate. What holds for every region of the final mapping: the rates of all rows are
  present; the 4-week moving average and the volatility of row \<open>i\<close> are absent for
  \<open>i < 3\<close>; from row 3 on they are the arithmetic mean and the sample standard deviation
  (divisor 3) of the rates of rows \<open>i - 3\<close> to \<open>i\<close> when these four rates are finite, and
  absent when one of them is infinite. On the rates 90, 91, 89, 92, 90, 93, 91, 94, 92,
  95 the first moving average is 90.5 and the first volatility is the root of 5/3,
  which lies within 0.005 of 1.29.
\<close>

theorem rolling_columns:
  assumes "(name, fr) \<in> set (dfs (final (main lib get api_key png0)))" and "i < length fr"
  shows "Utilization_Rate (fr ! i) \<noteq> None
    \<and> (i < 3 \<longrightarrow> MA_4W (fr ! i) = None \<and> Volatility (fr ! i) = None)
    \<and> (3 \<le> i \<longrightarrow>
         (\<forall>xs. window_rates fr i = map (\<lambda>x. Some (Finite x)) xs \<longrightarrow>
            MA_4W (fr ! i) = Some (sum_list xs / 4)
          \<and> Volatility (fr ! i) = Some (sqrt ((\<Sum>x\<leftarrow>xs. (x - sum_list xs / 4)\<^sup>2) / (4 - 1)))))
    \<and> (3 \<le> i \<and> (Some PosInf \<in> set (window_rates fr i) \<or> Some NegInf \<in> set (window_rates fr i)) \<longrightarrow>
         MA_4W (fr ! i) = None \<and> Volatility (fr ! i) = None)
    \<and> (map Utilization_Rate fr = map (\<lambda>x. Some (Finite x)) [90, 91, 89, 92, 90, 93, 91, 94, 92, 95] \<longrightarrow>
         MA_4W (fr ! 3) = Some (181 / 2) \<and> Volatility (fr ! 3) = Some (sqrt (5 / 3))
       \<and> \<bar>sqrt (5 / 3) - 129 / 100\<bar> < (1 / 200 :: real))"
proof -
  from main_entry [OF assms(1)] obtain sid where "region_frame lib get api_key sid = Some fr"
    by blast
  from region_frame_Some [OF this] obtain data df
    where n: "normalize_series lib data = Inr df" and fr: "fr = analysis df"
    by blast
  have i: "i < length df" using assms(2) fr by simp
  have gen: "MA_4W (fr ! k) = Some (sum_list xs / 4)
       \<and> Volatility (fr ! k) = Some (sqrt ((\<Sum>x\<leftarrow>xs. (x - sum_list xs / 4)\<^sup>2) / (4 - 1)))"
    if "3 \<le> k" "k < length df" "window_rates fr k = map (\<lambda>x. Some (Finite x)) xs" for k xs
  proof -
    have "length (window_rates fr k) = 4"
      using that(1) by (simp add: window_rates_def)
    then have l: "length xs = 4" using that(3) by simp
    from frame_rolling(3) [OF n that(2) that(1), of xs] that(3)
    show ?thesis by (simp add: fr mean_def stdev_def l)
  qed
  have inf: "MA_4W (fr ! i) = None \<and> Volatility (fr ! i) = None"
    if "3 \<le> i \<and> (Some PosInf \<in> set (window_rates fr i) \<or> Some NegInf \<in> set (window_rates fr i))"
    using frame_rolling(4) [OF n i] that by (simp add: fr)
  have ex: "MA_4W (fr ! 3) = Some (181 / 2) \<and> Volatility (fr ! 3) = Some (sqrt (5 / 3))"
    if e: "map Utilization_Rate fr = map (\<lambda>x. Some (Finite x)) [90, 91, 89, 92, 90, 93, 91, 94, 92, 95]"
  proof -
    have l: "length fr = 10" using arg_cong [OF e, of length] by simp
    have u: "Utilization_Rate (fr ! k) = map (\<lambda>x. Some (Finite x)) [90, 91, 89, 92, 90, 93, 91, 94, 92, 95] ! k"
      if "k < 10" for k
      using that l arg_cong [OF e, of "\<lambda>xs. xs ! k"] by simp
    have "window_rates fr 3 = map (\<lambda>k. Utilization_Rate (fr ! k)) [3 - 3, 3 - 2, 3 - 1, 3]"
      unfolding window_rates_def using upt_4 [of 3] by (simp only: le_refl)
    then have w: "window_rates fr 3 = map (\<lambda>x. Some (Finite x)) [90, 91, 89, 92]"
      by (simp add: u)
    have "3 < length df" using l fr by simp
    from gen [OF _ this w] show ?thesis
      by (simp add: power2_eq_square)
  qed
  have b: "\<bar>sqrt (5 / 3) - 129 / 100\<bar> < (1 / 200 :: real)"
  proof -
    have "(257 / 200 :: real) < sqrt (5 / 3)"
      by (rule real_less_rsqrt) (simp add: power2_eq_square)
    moreover have "sqrt (5 / 3) < (259 / 200 :: real)"
      by (rule real_less_lsqrt) (simp_all add: power2_eq_square)
    ultimately show ?thesis by linarith
  qed
  have 1: "Utilization_Rate (fr ! i) \<noteq> None"
    using frame_rolling(1) [OF n i] by (simp add: fr)
  have 2: "i < 3 \<longrightarrow> MA_4W (fr ! i) = None \<and> Volatility (fr ! i) = None"
    using frame_rolling(2) [OF n i] by (simp add: fr)
  have 3: "3 \<le> i \<longrightarrow>
         (\<forall>xs. window_rates fr i = map (\<lambda>x. Some (Finite x)) xs \<longrightarrow>
            MA_4W (fr ! i) = Some (sum_list xs / 4)
          \<and> Volatility (fr ! i) = Some (sqrt ((\<Sum>x\<leftarrow>xs. (x - sum_list xs / 4)\<^sup>2) / (4 - 1))))"
    using gen [OF _ i] by (intro impI allI)
  have 4: "3 \<le> i \<and> (Some PosInf \<in> set (window_rates fr i) \<or> Some NegInf \<in> set (window_rates fr i)) \<longrightarrow>
         MA_4W (fr ! i) = None \<and> Volatility (fr ! i) = None"
    using inf by (intro impI)
  have 5: "map Utilization_Rate fr = map (\<lambda>x. Some (Finite x)) [90, 91, 89, 92, 90, 93, 91, 94, 92, 95] \<longrightarrow>
         MA_4W (fr ! 3) = Some (181 / 2) \<and> Volatility (fr ! 3) = Some (sqrt (5 / 3))
       \<and> \<bar>sqrt (5 / 3) - 129 / 100\<bar> < (1 / 200 :: real)"
    using ex b by (intro impI conjI) simp_all
  from 1 2 3 4 5 show ?thesis by (intro conjI)
qed

theorem rolling_columns_witness:
  "(''U.S. Total'', analysis us_total) \<in> set (dfs (final (main fixture demo_source None None)))
   \<and> 3 < length (analysis us_total)
   \<and> map Utilization_Rate (analysis us_total) =
       map (\<lambda>x. Some (Finite x)) [90, 91, 89, 92, 90, 93, 91, 94, 92, 95]
   \<and> MA_4W (analysis us_total ! 3) = Some (181 / 2)
   \<and> Volatility (analysis us_total ! 3) = Some (sqrt (5 / 3))"
proof -
  have m: "(''U.S. Total'', analysis us_total) \<in> set (dfs (final (main fixture demo_source None None)))"
    by (simp add: demo_dfs)
  have l: "3 < length (analysis us_total)"
    by (simp add: us_total_def)
  have r: "map Utilization_Rate (analysis us_total) =
       map (\<lambda>x. Some (Finite x)) [90, 91, 89, 92, 90, 93, 91, 94, 92, 95]"
    by (simp add: analysis_rates us_total_def)
  note t = rolling_columns [OF m l]
  from t [THEN conjunct2, THEN conjunct2, THEN conjunct2, THEN conjunct2] r
  have "MA_4W (analysis us_total ! 3) = Some (181 / 2)"
    and "Volatility (analysis us_total ! 3) = Some (sqrt (5 / 3))"
    by simp_all
  with m l r show ?thesis by (intro conjI)
qed

theorem rolling_absent_at_infinity:
  "infinity_source (url None ''WPULEUS3'') = Inr (body with_infinity)
   \<and> (''U.S. Total'', analysis four_weeks) \<in> set (dfs (final (main fixture infinity_source None None)))
   \<and> map Utilization_Rate (analysis four_weeks) =
       [Some (Finite 90), Some PosInf, Some (Finite 91), Some (Finite 92)]
   \<and> MA_4W (analysis four_weeks ! 3) = None
   \<and> Volatility (analysis four_weeks ! 3) = None"
proof -
  have "infinity_source (url None ''WPULEUS3'') = Inr (body with_infinity)"
    by (simp add: infinity_source_def)
  moreover have r: "map Utilization_Rate (analysis four_weeks) =
       [Some (Finite 90), Some PosInf, Some (Finite 91), Some (Finite 92)]"
    by (simp add: analysis_rates four_weeks_def)
  moreover have "MA_4W (analysis four_weeks ! 3) = None" and "Volatility (analysis four_weeks ! 3) = None"
    by (simp_all add: analysis_nth four_weeks_def rolling_nth window_at_def present_def)
  ultimately show ?thesis
    using infinity_dfs by (intro conjI)
qed

text \<open>
  C3. When no region of \<open>series_ids\<close> runs to its end, the mapping is empty, the run
  stops with \<^verbatim>\<open>SystemExit("No data to plot.")\<close> after logging the failure, nothing of the
  dashboard is logged, and \<^verbatim>\<open>refinery_dashboard.png\<close> holds what it held before.
\<close>

theorem no_region_no_dashboard:
  assumes "\<forall>r\<in>set series_ids. \<forall>st. snd (fetch_region lib get api_key (fst r) (snd r) st) \<noteq> Normal"
  shows "dfs (final (main lib get api_key png0)) = []
    \<and> status (main lib get api_key png0) = SystemExit ''No data to plot.''
    \<and> png (main lib get api_key png0) = png0
    \<and> last (log (final (main lib get api_key png0))) = NoDataProcessed
    \<and> GeneratingDashboard \<notin> set (log (final (main lib get api_key png0)))
    \<and> DashboardSaved \<notin> set (log (final (main lib get api_key png0)))"
proof -
  let ?st = "fetch_all lib get api_key series_ids \<lparr>dfs = [], log = [StartingFetch]\<rparr>"
  have none: "\<forall>r\<in>set series_ids. entry_of lib get api_key r = None"
    using assms by (simp add: fetch_region_signal entry_of_def)
  have e: "dfs ?st = []"
    by (simp add: fetch_all_entries [OF distinct_series_ids] map_filter_empty [OF none])
  have "set (log ?st) \<subseteq> {StartingFetch} \<union> Collect fetch_event"
    using fetch_all_log [of lib get api_key series_ids "\<lparr>dfs = [], log = [StartingFetch]\<rparr>"]
    by simp
  then have "GeneratingDashboard \<notin> set (log ?st)" and "DashboardSaved \<notin> set (log ?st)"
    by auto
  with e show ?thesis
    by (simp add: main_def Let_def)
qed

theorem no_region_no_dashboard_witness:
  "denied (url None ''WPULEUS3'') = Inr no_fields
   \<and> dfs (final (main fixture denied None None)) = []
   \<and> status (main fixture denied None None) = SystemExit ''No data to plot.''
   \<and> png (main fixture denied None None) = None"
proof -
  have h: "\<forall>r\<in>set series_ids. \<forall>st. snd (fetch_region fixture denied None (fst r) (snd r) st) \<noteq> Normal"
    by (simp add: fetch_region_missing [where response = no_fields] denied_def fields_no_fields)
  note t = no_region_no_dashboard [OF h, of None]
  have "denied (url None ''WPULEUS3'') = Inr no_fields"
    by (simp add: denied_def)
  with t [THEN conjunct1] t [THEN conjunct2, THEN conjunct1]
    t [THEN conjunct2, THEN conjunct2, THEN conjunct1]
  show ?thesis by (intro conjI)
qed

text \<open>
  C8. One turn of the loop either leaves \<open>dfs\<close> exactly as it was (whenever the body of
  the \<^verbatim>\<open>try\<close> raises, at whatever step, or skips the region) or has run to its end and
  stored under the region's name the complete analysed frame of a non-empty cleaned
  series; nothing else is ever written to \<open>dfs\<close>.
\<close>

theorem region_insert_atomic:
  "(snd (fetch_region lib get api_key name sid (logger (Fetching name sid) st)) \<noteq> Normal \<longrightarrow>
      dfs (fst (fetch_region lib get api_key name sid (logger (Fetching name sid) st))) = dfs st
    \<and> dfs (process_region lib get api_key st (name, sid)) = dfs st)
   \<and> (\<forall>e. snd (fetch_region lib get api_key name sid (logger (Fetching name sid) st)) = Raise e \<longrightarrow>
        log (process_region lib get api_key st (name, sid)) =
          log (fst (fetch_region lib get api_key name sid (logger (Fetching name sid) st)))
            @ [ErrorProcessing name e])
   \<and> (snd (fetch_region lib get api_key name sid (logger (Fetching name sid) st)) = Normal \<longrightarrow>
        (\<exists>data df. normalize_series lib data = Inr df \<and> df \<noteq> []
           \<and> dfs (process_region lib get api_key st (name, sid)) =
               dict_set (dfs st) name (analysis df)))"
proof -
  let ?f = "fetch_region lib get api_key name sid (logger (Fetching name sid) st)"
  have a: "dfs (fst ?f) = dfs st \<and> dfs (process_region lib get api_key st (name, sid)) = dfs st"
    if "snd ?f \<noteq> Normal"
    using that by (simp add: fetch_region_signal fetch_region_dfs process_region_dfs)
  have b: "log (process_region lib get api_key st (name, sid)) = log (fst ?f) @ [ErrorProcessing name e]"
    if "snd ?f = Raise e" for e
    using that by (cases ?f) (simp add: process_region_def)
  have c: "\<exists>data df. normalize_series lib data = Inr df \<and> df \<noteq> []
           \<and> dfs (process_region lib get api_key st (name, sid)) = dict_set (dfs st) name (analysis df)"
    if "snd ?f = Normal"
  proof -
    from that obtain fr where fr: "region_frame lib get api_key sid = Some fr"
      by (auto simp add: fetch_region_signal)
    from region_frame_Some [OF fr] obtain data df
      where "normalize_series lib data = Inr df" "df \<noteq> []" "fr = analysis df"
      by blast
    with fr show ?thesis
      by (auto simp add: process_region_dfs)
  qed
  from a b c show ?thesis by blast
qed

theorem region_insert_atomic_witness:
  "snd (fetch_region fixture demo_source None ''PADD 4'' ''W_NA_YUP_R40_PER''
          (logger (Fetching ''PADD 4'' ''W_NA_YUP_R40_PER'') \<lparr>dfs = [], log = []\<rparr>)) = Raise RequestError
   \<and> dfs (process_region fixture demo_source None \<lparr>dfs = [], log = []\<rparr> (''PADD 4'', ''W_NA_YUP_R40_PER'')) = []
   \<and> snd (fetch_region fixture demo_source None ''U.S. Total'' ''WPULEUS3''
          (logger (Fetching ''U.S. Total'' ''WPULEUS3'') \<lparr>dfs = [], log = []\<rparr>)) = Normal
   \<and> (\<exists>data df. normalize_series fixture data = Inr df \<and> df \<noteq> []
        \<and> dfs (process_region fixture demo_source None \<lparr>dfs = [], log = []\<rparr> (''U.S. Total'', ''WPULEUS3'')) =
            dict_set [] ''U.S. Total'' (analysis df))"
proof -
  have r: "snd (fetch_region fixture demo_source None ''PADD 4'' ''W_NA_YUP_R40_PER''
          (logger (Fetching ''PADD 4'' ''W_NA_YUP_R40_PER'') \<lparr>dfs = [], log = []\<rparr>)) = Raise RequestError"
    by (simp add: fetch_region_def demo_source_def)
  have n: "snd (fetch_region fixture demo_source None ''U.S. Total'' ''WPULEUS3''
          (logger (Fetching ''U.S. Total'' ''WPULEUS3'') \<lparr>dfs = [], log = []\<rparr>)) = Normal"
    by (simp add: fetch_region_signal demo_frames)
  from region_insert_atomic [of fixture demo_source None "''PADD 4''" "''W_NA_YUP_R40_PER''" "\<lparr>dfs = [], log = []\<rparr>"]
    region_insert_atomic [of fixture demo_source None "''U.S. Total''" "''WPULEUS3''" "\<lparr>dfs = [], log = []\<rparr>"]
    r n
  show ?thesis by simp
qed

text \<open>
  C5. A region whose response is an object with \<^verbatim>\<open>response.data\<close> equal to the empty
  array is skipped by the \<^verbatim>\<open>continue\<close> of line 54: its turn of the loop leaves \<open>dfs\<close> as
  it was, it is no key of the final mapping, and when the dashboard is drawn no trend
  panel, comparison line, legend entry or bar carries its name. When some region of
  \<open>series_ids\<close> runs to its end, the run completes and the image is written.
\<close>

theorem empty_data_region_absent:
  assumes R: "R = main lib get api_key png0"
    and region: "(name, sid) \<in> set series_ids"
    and response: "get (url api_key sid) = Inr (JObj kvs)"
    and fields: "map_of kvs ''response'' = Some (JObj inner)"
    and data: "map_of inner ''data'' = Some (JArr [])"
  shows "fetch_region lib get api_key name sid st = (logger (NoDataReturned name) st, Continue)
    \<and> dfs (process_region lib get api_key st (name, sid)) = dfs st
    \<and> name \<notin> fst ` set (dfs (final R))
    \<and> (status R = Completed \<longrightarrow>
         (\<exists>d. png R = Some d
            \<and> name \<notin> set (map title (trends d))
            \<and> name \<notin> set (map label (comparison d))
            \<and> name \<notin> set (legend d)
            \<and> name \<notin> set (map bar_label (bars d))))
    \<and> ((\<exists>r\<in>set series_ids. \<exists>st'. snd (fetch_region lib get api_key (fst r) (snd r) st') = Normal) \<longrightarrow>
         status R = Completed \<and> (\<exists>d. png R = Some d))"
proof -
  note wf = well_formed_data [OF fields data]
  have 1: "fetch_region lib get api_key name sid st = (logger (NoDataReturned name) st, Continue)"
    using response wf by (simp add: fetch_region_def)
  have none: "region_frame lib get api_key sid = None"
    using response wf by (simp add: region_frame_def)
  have 2: "dfs (process_region lib get api_key st (name, sid)) = dfs st"
    by (simp add: process_region_dfs none)
  have 3: "name \<notin> fst ` set (dfs (final R))"
  proof
    assume "name \<in> fst ` set (dfs (final R))"
    then obtain sid' where m: "(name, sid') \<in> set series_ids"
      and f: "region_frame lib get api_key sid' \<noteq> None"
      unfolding R by (subst (asm) final_keys) (erule exE, erule conjE)
    from series_ids_unique [OF region m] have "sid' = sid" by simp
    with f none show False by simp
  qed
  have 4: "\<exists>d. png R = Some d
            \<and> name \<notin> set (map title (trends d))
            \<and> name \<notin> set (map label (comparison d))
            \<and> name \<notin> set (legend d)
            \<and> name \<notin> set (map bar_label (bars d))"
    if c: "status R = Completed"
  proof -
    have ne: "dfs (final (main lib get api_key png0)) \<noteq> []"
      using c main_completed_iff [of lib get api_key png0] by (simp add: R)
    have p: "png R = Some (drawn (dfs (final R)))"
      unfolding R by (rule main_completed(2) [OF ne])
    have "name \<notin> set (map title (trends (drawn (dfs (final R)))))"
      using 3 drawn_titles [of "dfs (final R)"] by blast
    moreover have "name \<notin> set (map label (comparison (drawn (dfs (final R)))))"
      using 3 by (simp only: drawn_labels) simp
    moreover have "name \<notin> set (legend (drawn (dfs (final R))))"
      using 3 drawn_legend [of "dfs (final R)"] by blast
    moreover have "name \<notin> set (map bar_label (bars (drawn (dfs (final R)))))"
      using 3 by (simp only: drawn_bar_labels) simp
    ultimately show ?thesis using p by blast
  qed
  have 5: "status R = Completed \<and> (\<exists>d. png R = Some d)"
    if "\<exists>r\<in>set series_ids. \<exists>st'. snd (fetch_region lib get api_key (fst r) (snd r) st') = Normal"
  proof -
    from that obtain r st' where "r \<in> set series_ids"
      and "snd (fetch_region lib get api_key (fst r) (snd r) st') = Normal"
      by blast
    then have ne: "dfs (final (main lib get api_key png0)) \<noteq> []"
      by (rule region_succeeds_entry)
    from main_completed [OF ne] show ?thesis unfolding R by simp
  qed
  from 1 2 3 4 5 show ?thesis by blast
qed

theorem empty_data_region_absent_witness:
  "(''PADD 2'', ''W_NA_YUP_R20_PER'') \<in> set series_ids
   \<and> demo_source (url None ''W_NA_YUP_R20_PER'') =
       Inr (JObj [(''response'', JObj [(''total'', JNum 10), (''data'', JArr [])])])
   \<and> snd (fetch_region fixture demo_source None ''U.S. Total'' ''WPULEUS3'' \<lparr>dfs = [], log = []\<rparr>) = Normal
   \<and> ''PADD 2'' \<notin> fst ` set (dfs (final (main fixture demo_source None None)))
   \<and> status (main fixture demo_source None None) = Completed
   \<and> (\<exists>d. png (main fixture demo_source None None) = Some d)"
proof -
  have s: "(''PADD 2'', ''W_NA_YUP_R20_PER'') \<in> set series_ids"
    by (simp add: series_ids_def)
  have g: "demo_source (url None ''W_NA_YUP_R20_PER'') =
       Inr (JObj [(''response'', JObj [(''total'', JNum 10), (''data'', JArr [])])])"
    by (simp add: demo_source_def body_def)
  have u: "(''U.S. Total'', ''WPULEUS3'') \<in> set series_ids"
    by (simp add: series_ids_def)
  have n: "snd (fetch_region fixture demo_source None ''U.S. Total'' ''WPULEUS3'' \<lparr>dfs = [], log = []\<rparr>) = Normal"
    by (simp add: fetch_region_signal demo_frames)
  with u have e: "\<exists>r\<in>set series_ids. \<exists>st'. snd (fetch_region fixture demo_source None (fst r) (snd r) st') = Normal"
    by force
  from empty_data_region_absent [where get = demo_source and api_key = None and lib = fixture
      and ?png0.0 = None and sid = "''W_NA_YUP_R20_PER''" and name = "''PADD 2''"
      and st = "\<lparr>dfs = [], log = []\<rparr>", OF refl s g body_fields] e
  have "''PADD 2'' \<notin> fst ` set (dfs (final (main fixture demo_source None None)))"
    and "status (main fixture demo_source None None) = Completed"
    and "\<exists>d. png (main fixture demo_source None None) = Some d"
    by blast+
  with s g n show ?thesis by (intro conjI)
qed

text \<open>
  C6. In a run that has some region in its final mapping the dashboard is drawn, and
  the comparison panel has one line for each entry, in the order of the mapping. The
  line of an entry carries the region's name as label, holds exactly the rows of the
  region whose date is on or after 2022-01-01 (a row without date is left out), is
  listed in the legend also when it is empty, and has width 2.5 if the name is
  \<^verbatim>\<open>PADD 3\<close> and 1.5 otherwise.
\<close>

theorem comparison_panel_lines:
  assumes R: "R = main lib get api_key png0"
    and i: "i < length (dfs (final R))"
    and entry: "dfs (final R) ! i = (name, fr)"
  shows "status R = Completed
    \<and> (\<exists>d. png R = Some d
         \<and> length (comparison d) = length (dfs (final R))
         \<and> label (comparison d ! i) = name
         \<and> line_x (comparison d ! i) = map Date (filter (\<lambda>r. \<exists>t. Date r = Some t \<and> cutoff \<le> t) fr)
         \<and> line_y (comparison d ! i) =
             map Utilization_Rate (filter (\<lambda>r. \<exists>t. Date r = Some t \<and> cutoff \<le> t) fr)
         \<and> linewidth (comparison d ! i) = (if name = ''PADD 3'' then 5 / 2 else 3 / 2)
         \<and> name \<in> set (legend d)
         \<and> ((\<forall>r\<in>set fr. \<forall>t. Date r = Some t \<longrightarrow> t < cutoff) \<longrightarrow>
              line_x (comparison d ! i) = [] \<and> line_y (comparison d ! i) = []))
    \<and> cutoff = 18993 * 86400 * 10 ^ 9"
proof -
  let ?d = "dfs (final R)"
  from i have ne: "dfs (final (main lib get api_key png0)) \<noteq> []"
    unfolding R by auto
  have c: "status R = Completed"
    unfolding R by (rule main_completed(1) [OF ne])
  have p: "png R = Some (drawn ?d)"
    unfolding R by (rule main_completed(2) [OF ne])
  have l: "comparison (drawn ?d) ! i = line_of (i, name, fr)"
    using i entry by (simp add: drawn_def enumerate_nth)
  have len: "length (comparison (drawn ?d)) = length ?d"
    by (simp add: drawn_def)
  have "name \<in> fst ` set ?d"
    using i entry by (metis fst_conv image_eqI nth_mem)
  then obtain sid where "(name, sid) \<in> set series_ids"
    unfolding R by (subst (asm) final_keys) (erule exE, erule conjE)
  with series_names_in_legend have leg: "in_legend name" by force
  have "name \<in> set (map fst ?d)"
    using i entry by (metis fst_conv length_map nth_map nth_mem)
  with leg have inl: "name \<in> set (legend (drawn ?d))"
    by (simp add: drawn_def)
  have e: "filter (\<lambda>r. \<exists>t. Date r = Some t \<and> cutoff \<le> t) fr = []"
    if "\<forall>r\<in>set fr. \<forall>t. Date r = Some t \<longrightarrow> t < cutoff"
    using that by (auto simp add: filter_empty_conv)
  have lw: "linewidth (line_of (i, name, fr)) = (if name = ''PADD 3'' then 5 / 2 else 3 / 2)"
    by (simp add: line_of_def)
  have parts: "label (line_of (i, name, fr)) = name"
    "line_x (line_of (i, name, fr)) = map Date (filter (\<lambda>r. \<exists>t. Date r = Some t \<and> cutoff \<le> t) fr)"
    "line_y (line_of (i, name, fr)) =
       map Utilization_Rate (filter (\<lambda>r. \<exists>t. Date r = Some t \<and> cutoff \<le> t) fr)"
    by (simp_all add: line_of_def recent_filter)
  have cut: "cutoff = 18993 * 86400 * 10 ^ 9"
    by (simp add: cutoff_def)
  have "\<exists>d. png R = Some d
         \<and> length (comparison d) = length (dfs (final R))
         \<and> label (comparison d ! i) = name
         \<and> line_x (comparison d ! i) = map Date (filter (\<lambda>r. \<exists>t. Date r = Some t \<and> cutoff \<le> t) fr)
         \<and> line_y (comparison d ! i) =
             map Utilization_Rate (filter (\<lambda>r. \<exists>t. Date r = Some t \<and> cutoff \<le> t) fr)
         \<and> linewidth (comparison d ! i) = (if name = ''PADD 3'' then 5 / 2 else 3 / 2)
         \<and> name \<in> set (legend d)
         \<and> ((\<forall>r\<in>set fr. \<forall>t. Date r = Some t \<longrightarrow> t < cutoff) \<longrightarrow>
              line_x (comparison d ! i) = [] \<and> line_y (comparison d ! i) = [])"
    apply (rule exI [of _ "drawn ?d"])
    apply (simp only: p l len parts lw)
    using inl e apply simp
    done
  with c cut show ?thesis by (intro conjI)
qed

theorem comparison_panel_lines_witness:
  "1 < length (dfs (final (main fixture demo_source None None)))
   \<and> dfs (final (main fixture demo_source None None)) ! 1 = (''PADD 3'', analysis padd3)
   \<and> map Date (analysis padd3) = [day 18985, day 18992]
   \<and> (\<exists>d. png (main fixture demo_source None None) = Some d
        \<and> label (comparison d ! 1) = ''PADD 3''
        \<and> linewidth (comparison d ! 1) = 5 / 2
        \<and> line_x (comparison d ! 1) = []
        \<and> ''PADD 3'' \<in> set (legend d))"
proof -
  have i: "1 < length (dfs (final (main fixture demo_source None None)))"
    by (simp add: demo_dfs)
  have e: "dfs (final (main fixture demo_source None None)) ! 1 = (''PADD 3'', analysis padd3)"
    by (simp add: demo_dfs)
  from comparison_panel_lines [OF refl i e] padd3_old
  obtain d where "png (main fixture demo_source None None) = Some d"
    and "label (comparison d ! 1) = ''PADD 3''"
    and "linewidth (comparison d ! 1) = (if ''PADD 3'' = ''PADD 3'' then 5 / 2 else 3 / 2)"
    and "line_x (comparison d ! 1) = []"
    and "''PADD 3'' \<in> set (legend d)"
    by blast
  then have "\<exists>d. png (main fixture demo_source None None) = Some d
        \<and> label (comparison d ! 1) = ''PADD 3''
        \<and> linewidth (comparison d ! 1) = 5 / 2
        \<and> line_x (comparison d ! 1) = []
        \<and> ''PADD 3'' \<in> set (legend d)"
    by (intro exI [of _ d]) simp
  moreover have "map Date (analysis padd3) = [day 18985, day 18992]"
    by (simp add: analysis_dates padd3_def)
  ultimately show ?thesis using i e by (intro conjI)
qed

text \<open>
  C7. In a run that has some region in its final mapping the bar chart has one bar for
  each entry, in the order of the mapping. The bar of an entry carries the region's
  name, its height is the arithmetic mean of the defined entries of the region's
  volatility column, and its error bar is the sample standard deviation (divisor: the
  number of defined entries less one) of the defined entries of the same column; no
  defined entry gives no height, fewer than two give no error bar.
\<close>

theorem volatility_bars:
  assumes R: "R = main lib get api_key png0"
    and i: "i < length (dfs (final R))"
    and entry: "dfs (final R) ! i = (name, fr)"
  shows "\<exists>d. png R = Some d
         \<and> length (bars d) = length (dfs (final R))
         \<and> bar_label (bars d ! i) = name
         \<and> height (bars d ! i) = arithmetic_mean_of_defined (map Volatility fr)
         \<and> yerr (bars d ! i) = sample_stdev_of_defined (map Volatility fr)"
proof -
  let ?d = "dfs (final R)"
  from i have ne: "dfs (final (main lib get api_key png0)) \<noteq> []"
    unfolding R by auto
  have p: "png R = Some (drawn ?d)"
    unfolding R by (rule main_completed(2) [OF ne])
  have b: "bars (drawn ?d) ! i = volatility_bar (name, fr)"
    using i entry by (simp add: drawn_def)
  have len: "length (bars (drawn ?d)) = length ?d"
    by (simp add: drawn_def)
  have v: "bar_label (volatility_bar (name, fr)) = name"
    "height (volatility_bar (name, fr)) = arithmetic_mean_of_defined (map Volatility fr)"
    "yerr (volatility_bar (name, fr)) = sample_stdev_of_defined (map Volatility fr)"
    by (simp_all add: volatility_bar_def series_mean_spec series_std_spec)
  show ?thesis
    by (rule exI [of _ "drawn ?d"]) (simp only: p b len v simp_thms)
qed

theorem volatility_bars_witness:
  "0 < length (dfs (final (main fixture demo_source None None)))
   \<and> dfs (final (main fixture demo_source None None)) ! 0 = (''U.S. Total'', analysis us_total)
   \<and> (\<exists>d. png (main fixture demo_source None None) = Some d
        \<and> length (bars d) = 3
        \<and> bar_label (bars d ! 0) = ''U.S. Total''
        \<and> height (bars d ! 0) = arithmetic_mean_of_defined (map Volatility (analysis us_total))
        \<and> yerr (bars d ! 0) = sample_stdev_of_defined (map Volatility (analysis us_total)))"
proof -
  have i: "0 < length (dfs (final (main fixture demo_source None None)))"
    by (simp add: demo_dfs)
  have e: "dfs (final (main fixture demo_source None None)) ! 0 = (''U.S. Total'', analysis us_total)"
    by (simp add: demo_dfs)
  have l: "length (dfs (final (main fixture demo_source None None))) = 3"
    by (simp add: demo_dfs)
  from volatility_bars [OF refl i e] l
  have "\<exists>d. png (main fixture demo_source None None) = Some d
        \<and> length (bars d) = 3
        \<and> bar_label (bars d ! 0) = ''U.S. Total''
        \<and> height (bars d ! 0) = arithmetic_mean_of_defined (map Volatility (analysis us_total))
        \<and> yerr (bars d ! 0) = sample_stdev_of_defined (map Volatility (analysis us_total))"
    by simp
  with i e show ?thesis by (intro conjI)
qed

text \<open>
  C2. As stated the claim fails: the normalizer keeps every record, so a list with a
  repeated period gives a series in which a date repeats. What holds for every region
  of the final mapping, whatever the data source returned: the dates are in ascending
  order, equal dates allowed, with the rows that have no date after all dated rows, and
  no row lacks its utilization rate.
\<close>

theorem series_dates_ascending:
  assumes "argsort_ok (argsort lib)"
    and "(name, fr) \<in> set (dfs (final (main lib get api_key png0)))"
  shows "dates_ascending fr
    \<and> (\<forall>i j. i < j \<and> j < length fr \<longrightarrow> date_le (Date (fr ! i)) (Date (fr ! j)))
    \<and> (\<forall>r\<in>set fr. Utilization_Rate r \<noteq> None)"
proof -
  from main_entry [OF assms(2)] obtain sid where "region_frame lib get api_key sid = Some fr"
    by blast
  from region_frame_Some [OF this] obtain data df
    where n: "normalize_series lib data = Inr df" and fr: "fr = analysis df"
    by blast
  have s: "sorted_wrt date_le (map Date fr)"
    using normalize_sorted [OF assms(1) n] by (simp add: fr analysis_dates)
  then have a: "dates_ascending fr"
    by (simp add: dates_ascending_def)
  have b: "date_le (Date (fr ! i)) (Date (fr ! j))" if "i < j \<and> j < length fr" for i j
    using sorted_wrt_nth_less [OF s, of i j] that by simp
  have u: "set (map Utilization_Rate fr) = set (map snd df)"
    by (simp only: fr analysis_rates)
  have c: "\<forall>r\<in>set fr. Utilization_Rate r \<noteq> None"
  proof
    fix r assume "r \<in> set fr"
    then have "Utilization_Rate r \<in> set (map Utilization_Rate fr)" by simp
    then have "Utilization_Rate r \<in> set (map snd df)" by (simp only: u)
    then obtain q where "q \<in> set df" and "Utilization_Rate r = snd q" by auto
    with normalize_rates [OF n] show "Utilization_Rate r \<noteq> None" by simp
  qed
  from a b c show ?thesis by blast
qed

theorem series_dates_ascending_witness:
  "argsort_ok (argsort fixture)
   \<and> (''PADD 5'', analysis padd5) \<in> set (dfs (final (main fixture demo_source None None)))
   \<and> dates_ascending (analysis padd5)
   \<and> list_all (\<lambda>r. Utilization_Rate r \<noteq> None) (analysis padd5)"
proof -
  have a: "argsort_ok (argsort fixture)"
    by (simp add: fixture_def argsort_ok_stable)
  have m: "(''PADD 5'', analysis padd5) \<in> set (dfs (final (main fixture demo_source None None)))"
    by (simp add: demo_dfs)
  note t = series_dates_ascending [OF a m]
  from t [THEN conjunct2, THEN conjunct2]
  have "list_all (\<lambda>r. Utilization_Rate r \<noteq> None) (analysis padd5)"
    by (simp only: list_all_iff)
  with a m t [THEN conjunct1] show ?thesis by (intro conjI)
qed

theorem series_dates_not_strict:
  "demo_source (url None ''W_NA_YUP_R50_PER'') = Inr (body repeated)
   \<and> argsort_ok (argsort fixture)
   \<and> (''PADD 5'', analysis padd5) \<in> set (dfs (final (main fixture demo_source None None)))
   \<and> map Date (analysis padd5) = [day 18992, day 18999, day 18999]
   \<and> \<not> dates_strictly_increasing (analysis padd5)"
proof -
  have "demo_source (url None ''W_NA_YUP_R50_PER'') = Inr (body repeated)"
    by (simp add: demo_source_def)
  moreover have "argsort_ok (argsort fixture)"
    by (simp add: fixture_def argsort_ok_stable)
  moreover have "(''PADD 5'', analysis padd5) \<in> set (dfs (final (main fixture demo_source None None)))"
    by (simp add: demo_dfs)
  moreover have "map Date (analysis padd5) = [day 18992, day 18999, day 18999]"
    by (simp add: analysis_dates padd5_def)
  ultimately show ?thesis
    using padd5_not_strict by (intro conjI)
qed

text \<open>
  C4. A region whose response lacks the expected top-level fields (no object, no
  \<^verbatim>\<open>response\<close> object in it, or no \<^verbatim>\<open>data\<close> in that) raises in its turn of the loop, at the
  check of line 47 or at the subscripts of lines 47 and 51: the error is logged at
  level ERROR, \<open>dfs\<close> is left as it was, and the loop goes on with the regions that
  follow from the state so reached. Each of them is attempted, each of them that runs
  to its end is stored, and the mapping is the one of the loop without the failed
  region. In the run over \<open>series_ids\<close> the failed region is no key of the final mapping,
  and every region that runs to its end is stored with the frame of its own turn.
\<close>

theorem missing_fields_skip_region:
  assumes "get (url api_key sid) = Inr response" and "\<not> has_fields response"
  shows "(\<exists>e. snd (fetch_region lib get api_key name sid (logger (Fetching name sid) st)) = Raise e
          \<and> log (process_region lib get api_key st (name, sid)) =
              log st @ Fetching name sid
                # (if fields_missing response = Inr True then [ApiCallFailed name response] else [])
                @ [ErrorProcessing name e]
          \<and> level_of (ErrorProcessing name e) = ERROR)
    \<and> dfs (process_region lib get api_key st (name, sid)) = dfs st
    \<and> fetch_all lib get api_key (before @ (name, sid) # after) st =
        fetch_all lib get api_key after
          (process_region lib get api_key (fetch_all lib get api_key before st) (name, sid))
    \<and> dfs (fetch_all lib get api_key (before @ (name, sid) # after) st) =
        dfs (fetch_all lib get api_key (before @ after) st)
    \<and> (\<forall>r\<in>set after.
          Fetching (fst r) (snd r) \<in> set (log (fetch_all lib get api_key (before @ (name, sid) # after) st)))
    \<and> (\<forall>r\<in>set after.
          (\<exists>st'. snd (fetch_region lib get api_key (fst r) (snd r) st') = Normal) \<longrightarrow>
          fst r \<in> fst ` set (dfs (fetch_all lib get api_key (before @ (name, sid) # after) st)))
    \<and> ((name, sid) \<in> set series_ids \<longrightarrow>
         name \<notin> fst ` set (dfs (final (main lib get api_key png0)))
       \<and> (\<forall>r\<in>set series_ids.
            (\<exists>st'. snd (fetch_region lib get api_key (fst r) (snd r) st') = Normal) \<longrightarrow>
            (\<exists>fr. (fst r, fr) \<in> set (dfs (final (main lib get api_key png0)))
               \<and> dfs (fst (fetch_region lib get api_key (fst r) (snd r) \<lparr>dfs = [], log = []\<rparr>))
                   = [(fst r, fr)])))"
proof -
  let ?st0 = "logger (Fetching name sid) st"
  have none: "region_frame lib get api_key sid = None"
    using assms by (rule lacking_region_frame)
  from lacking_raises [where get = get and api_key = api_key and sid = sid, OF assms, of lib name ?st0]
  obtain e where f: "fetch_region lib get api_key name sid ?st0 =
      (if fields_missing response = Inr True then logger (ApiCallFailed name response) ?st0 else ?st0,
       Raise e)"
    by blast
  have 1: "\<exists>e. snd (fetch_region lib get api_key name sid ?st0) = Raise e
          \<and> log (process_region lib get api_key st (name, sid)) =
              log st @ Fetching name sid
                # (if fields_missing response = Inr True then [ApiCallFailed name response] else [])
                @ [ErrorProcessing name e]
          \<and> level_of (ErrorProcessing name e) = ERROR"
    by (rule exI [of _ e]) (simp add: f process_region_def)
  have 2: "dfs (process_region lib get api_key st (name, sid)) = dfs st"
    by (simp add: process_region_dfs none)
  have 3: "fetch_all lib get api_key (before @ (name, sid) # after) st =
        fetch_all lib get api_key after
          (process_region lib get api_key (fetch_all lib get api_key before st) (name, sid))"
    by (simp add: fetch_all_def)
  have 4: "dfs (fetch_all lib get api_key (before @ (name, sid) # after) st) =
        dfs (fetch_all lib get api_key (before @ after) st)"
    using foldl_store_skip [of lib get api_key "(name, sid)"] none by (simp add: fetch_all_dfs)
  have 5: "\<forall>r\<in>set after.
          Fetching (fst r) (snd r) \<in> set (log (fetch_all lib get api_key (before @ (name, sid) # after) st))"
  proof
    fix r assume "r \<in> set after"
    then have "r \<in> set (before @ (name, sid) # after)" by simp
    then show "Fetching (fst r) (snd r)
        \<in> set (log (fetch_all lib get api_key (before @ (name, sid) # after) st))"
      by (rule fetch_all_attempts)
  qed
  have 6: "\<forall>r\<in>set after.
          (\<exists>st'. snd (fetch_region lib get api_key (fst r) (snd r) st') = Normal) \<longrightarrow>
          fst r \<in> fst ` set (dfs (fetch_all lib get api_key (before @ (name, sid) # after) st))"
  proof (intro ballI impI)
    fix r assume "r \<in> set after"
      and "\<exists>st'. snd (fetch_region lib get api_key (fst r) (snd r) st') = Normal"
    then obtain st' where "r \<in> set (before @ (name, sid) # after)"
      and "snd (fetch_region lib get api_key (fst r) (snd r) st') = Normal"
      by auto
    then show "fst r \<in> fst ` set (dfs (fetch_all lib get api_key (before @ (name, sid) # after) st))"
      by (rule fetch_all_stores)
  qed
  have 7: "name \<notin> fst ` set (dfs (final (main lib get api_key png0)))"
    if "(name, sid) \<in> set series_ids"
  proof
    assume "name \<in> fst ` set (dfs (final (main lib get api_key png0)))"
    then obtain sid' where m: "(name, sid') \<in> set series_ids"
      and f: "region_frame lib get api_key sid' \<noteq> None"
      by (subst (asm) final_keys) (erule exE, erule conjE)
    from series_ids_unique [OF that m] have "sid' = sid" by simp
    with f none show False by simp
  qed
  have 8: "\<forall>r\<in>set series_ids.
            (\<exists>st'. snd (fetch_region lib get api_key (fst r) (snd r) st') = Normal) \<longrightarrow>
            (\<exists>fr. (fst r, fr) \<in> set (dfs (final (main lib get api_key png0)))
               \<and> dfs (fst (fetch_region lib get api_key (fst r) (snd r) \<lparr>dfs = [], log = []\<rparr>))
                   = [(fst r, fr)])"
  proof (intro ballI impI)
    fix r assume "r \<in> set series_ids"
      and "\<exists>st'. snd (fetch_region lib get api_key (fst r) (snd r) st') = Normal"
    then obtain st' where "r \<in> set series_ids"
      and "snd (fetch_region lib get api_key (fst r) (snd r) st') = Normal"
      by auto
    then show "\<exists>fr. (fst r, fr) \<in> set (dfs (final (main lib get api_key png0)))
               \<and> dfs (fst (fetch_region lib get api_key (fst r) (snd r) \<lparr>dfs = [], log = []\<rparr>))
                   = [(fst r, fr)]"
      by (rule main_stores)
  qed
  from 7 8 have 9: "(name, sid) \<in> set series_ids \<longrightarrow>
         name \<notin> fst ` set (dfs (final (main lib get api_key png0)))
       \<and> (\<forall>r\<in>set series_ids.
            (\<exists>st'. snd (fetch_region lib get api_key (fst r) (snd r) st') = Normal) \<longrightarrow>
            (\<exists>fr. (fst r, fr) \<in> set (dfs (final (main lib get api_key png0)))
               \<and> dfs (fst (fetch_region lib get api_key (fst r) (snd r) \<lparr>dfs = [], log = []\<rparr>))
                   = [(fst r, fr)]))"
    by (intro impI conjI)
  from 1 2 3 4 5 6 9 show ?thesis by (intro conjI)
qed

theorem missing_fields_skip_region_witness:
  "demo_source (url None ''W_NA_YUP_R10_PER'') = Inr no_fields
   \<and> \<not> has_fields no_fields
   \<and> \<not> has_fields JNull
   \<and> \<not> has_fields (JObj [(''response'', JNull)])
   \<and> \<not> has_fields (JObj [(''response'', JStr ''metadata'')])
   \<and> (''PADD 1'', ''W_NA_YUP_R10_PER'') \<in> set series_ids
   \<and> ''PADD 1'' \<notin> fst ` set (dfs (final (main fixture demo_source None None)))
   \<and> Fetching ''PADD 3'' ''W_NA_YUP_R30_PER''
       \<in> set (log (fetch_all fixture demo_source None
            ([(''U.S. Total'', ''WPULEUS3'')] @ (''PADD 1'', ''W_NA_YUP_R10_PER'')
               # [(''PADD 2'', ''W_NA_YUP_R20_PER''), (''PADD 3'', ''W_NA_YUP_R30_PER'')])
            \<lparr>dfs = [], log = []\<rparr>))
   \<and> ''PADD 3''
       \<in> fst ` set (dfs (fetch_all fixture demo_source None
            ([(''U.S. Total'', ''WPULEUS3'')] @ (''PADD 1'', ''W_NA_YUP_R10_PER'')
               # [(''PADD 2'', ''W_NA_YUP_R20_PER''), (''PADD 3'', ''W_NA_YUP_R30_PER'')])
            \<lparr>dfs = [], log = []\<rparr>))"
proof -
  have g: "demo_source (url None ''W_NA_YUP_R10_PER'') = Inr no_fields"
    by (simp add: demo_source_def)
  have h: "\<not> has_fields no_fields"
    by (simp add: has_fields_def no_fields_def)
  have others: "\<not> has_fields JNull" "\<not> has_fields (JObj [(''response'', JNull)])"
    "\<not> has_fields (JObj [(''response'', JStr ''metadata'')])"
    by (simp_all add: has_fields_def)
  have s: "(''PADD 1'', ''W_NA_YUP_R10_PER'') \<in> set series_ids"
    by (simp add: series_ids_def)
  have n: "\<exists>st'. snd (fetch_region fixture demo_source None
        (fst (''PADD 3'', ''W_NA_YUP_R30_PER'')) (snd (''PADD 3'', ''W_NA_YUP_R30_PER'')) st') = Normal"
    by (simp add: fetch_region_signal demo_frames)
  have m: "(''PADD 3'', ''W_NA_YUP_R30_PER'')
      \<in> set [(''PADD 2'', ''W_NA_YUP_R20_PER''), (''PADD 3'', ''W_NA_YUP_R30_PER'')]"
    by simp
  note t = missing_fields_skip_region [where get = demo_source and api_key = None
      and sid = "''W_NA_YUP_R10_PER''" and response = no_fields and lib = fixture
      and before = "[(''U.S. Total'', ''WPULEUS3'')]" and name = "''PADD 1''"
      and after = "[(''PADD 2'', ''W_NA_YUP_R20_PER''), (''PADD 3'', ''W_NA_YUP_R30_PER'')]"
      and st = "\<lparr>dfs = [], log = []\<rparr>" and ?png0.0 = None, OF g h]
  note t5 = t [THEN conjunct2, THEN conjunct2, THEN conjunct2, THEN conjunct2, THEN conjunct1,
      THEN bspec, OF m]
  note t6 = t [THEN conjunct2, THEN conjunct2, THEN conjunct2, THEN conjunct2, THEN conjunct2,
      THEN conjunct1, THEN bspec, OF m, THEN mp, OF n]
  note t7 = t [THEN conjunct2, THEN conjunct2, THEN conjunct2, THEN conjunct2, THEN conjunct2,
      THEN conjunct2, THEN mp, OF s, THEN conjunct1]
  from g h others s t7 t5 [simplified fst_conv snd_conv] t6 [simplified fst_conv]
  show ?thesis by (intro conjI)
qed




end
